theory Spec2Isabelle
  imports Main
begin

section \<open>Form binding and response encoding of package zen (context.go)\<close>

text \<open>
  The package binds the values of a submitted form to the fields of a tagged struct
  (\<open>ParseValidForm\<close>, \<open>parseValidForm\<close>, \<open>scan\<close>, \<open>valid\<close>) and writes response
  bodies with a content type (\<open>JSON\<close>, \<open>XML\<close>, \<open>ASN1\<close>). The code reaches the struct
  through package reflect and delegates parsing, matching and encoding to the Go standard
  library. Here a struct is the list of its fields in declaration order; the standard
  library functions whose behaviour is short and fixed (\<open>strconv.ParseBool\<close>,
  \<open>strconv.ParseInt\<close>, \<open>strconv.ParseUint\<close>, \<open>url.Values.Get\<close>,
  \<open>reflect.StructTag.Get\<close>, the \<open>Set\<close> methods of \<open>reflect.Value\<close>) are written out,
  and the others (regular expressions, floating point parsing, the form parser, the
  encoders, the response writer) are parameters, so every theorem holds whatever they do.
\<close>

subsection \<open>Constants of the package\<close>

definition inputTagName :: string where "inputTagName = ''form''"
definition validTagName :: string where "validTagName = ''valid''"
definition validMsgName :: string where "validMsgName = ''msg''"

definition applicationJSON :: string where "applicationJSON = ''application/json''"
definition applicationXML :: string where "applicationXML = ''application/xml''"
definition textXML :: string where "textXML = ''text/xml''"
definition applicationASN1 :: string where "applicationASN1 = ''application/asn1''"
definition contentType :: string where "contentType = ''Content-Type''"

subsection \<open>Errors\<close>

text \<open>
  A Go \<open>error\<close> is an interface value; \<open>nil\<close> is \<open>None\<close> of \<open>error option\<close>. The
  constructors are the concrete error types that reach the caller:
  \<open>errors.New\<close> builds an \<open>errorString\<close>, package strconv returns a \<open>NumError\<close> with
  the function name, the input and \<open>ErrSyntax\<close> or \<open>ErrRange\<close>, package regexp returns a
  \<open>syntax.Error\<close> with a code and the expression, and any other error of the host
  libraries is identified by its message.
\<close>

datatype strconv_Err = ErrSyntax | ErrRange

datatype error =
    errorString string
  | NumError string string strconv_Err
  | syntax_Error string string
  | host_error string

definition errors_New :: "string \<Rightarrow> error" where
  "errors_New text = errorString text"

text \<open>
  The method \<open>Error()\<close>, for the error types whose message the package's callers see
  literally. (The message of a \<open>NumError\<close> quotes its input with \<open>strconv.Quote\<close>, which
  is not modelled; no statement below depends on it.)
\<close>

fun Error :: "error \<Rightarrow> string" where
  "Error (errorString s) = s"
| "Error (syntax_Error code expr) =
     ''error parsing regexp: '' @ code @ '': '' @ [CHR 0x60] @ expr @ [CHR 0x60]"
| "Error (host_error s) = s"

subsection \<open>Package strconv, base 10\<close>

text \<open>
  Both call sites pass base 10, so the digit loop is written for base 10: a byte that is
  not a decimal digit (a letter is a digit of a larger base) is a syntax error. The
  accumulator is a \<open>uint64\<close>, with the wrap-around written out.
\<close>

definition is_digit :: "char \<Rightarrow> bool" where
  "is_digit c = (of_char (CHR ''0'') \<le> (of_char c :: nat) \<and> (of_char c :: nat) \<le> of_char (CHR ''9''))"

definition digit_val :: "char \<Rightarrow> nat" where
  "digit_val c = of_char c - of_char (CHR ''0'')"

definition maxUint64 :: nat where
  "maxUint64 = 2 ^ 64 - 1"

definition cutoff10 :: nat where
  \<comment> \<open>the smallest number such that \<open>cutoff * 10 > maxUint64\<close>\<close>
  "cutoff10 = maxUint64 div 10 + 1"

fun ParseUint_loop :: "nat \<Rightarrow> nat \<Rightarrow> string \<Rightarrow> strconv_Err + nat" where
  "ParseUint_loop maxVal n [] = Inr n"
| "ParseUint_loop maxVal n (c # cs) =
     (if \<not> is_digit c then Inl ErrSyntax
      else if n \<ge> cutoff10 then Inl ErrRange
      else let n10 = (n * 10) mod 2 ^ 64;
               n1 = (n10 + digit_val c) mod 2 ^ 64
           in if n1 < n10 \<or> n1 > maxVal then Inl ErrRange
              else ParseUint_loop maxVal n1 cs)"

definition ParseUint :: "string \<Rightarrow> nat \<Rightarrow> error + nat" where
  \<comment> \<open>\<open>strconv.ParseUint(s, 10, bitSize)\<close> for \<open>1 \<le> bitSize \<le> 64\<close>\<close>
  "ParseUint s bitSize =
     (if s = [] then Inl (NumError ''ParseUint'' s ErrSyntax)
      else case ParseUint_loop (2 ^ bitSize - 1) 0 s of
             Inl e \<Rightarrow> Inl (NumError ''ParseUint'' s e)
           | Inr n \<Rightarrow> Inr n)"

definition ParseInt :: "string \<Rightarrow> nat \<Rightarrow> error + int" where
  \<comment> \<open>\<open>strconv.ParseInt(s, 10, bitSize)\<close> for \<open>2 \<le> bitSize \<le> 64\<close>; after a range error
      of \<open>ParseUint\<close> the unsigned value is \<open>maxVal\<close>, beyond both cutoffs\<close>
  "ParseInt s0 bitSize =
     (if s0 = [] then Inl (NumError ''ParseInt'' s0 ErrSyntax)
      else let neg = (hd s0 = CHR ''-'');
               s = (if hd s0 = CHR ''+'' \<or> hd s0 = CHR ''-'' then tl s0 else s0);
               cutoff = (2::nat) ^ (bitSize - 1)
           in case ParseUint s bitSize of
                Inl (NumError f num ErrSyntax) \<Rightarrow> Inl (NumError ''ParseInt'' s0 ErrSyntax)
              | Inl _ \<Rightarrow> Inl (NumError ''ParseInt'' s0 ErrRange)
              | Inr un \<Rightarrow>
                  if \<not> neg \<and> un \<ge> cutoff then Inl (NumError ''ParseInt'' s0 ErrRange)
                  else if neg \<and> un > cutoff then Inl (NumError ''ParseInt'' s0 ErrRange)
                  else Inr (if neg then - int un else int un))"

definition ParseBool :: "string \<Rightarrow> error + bool" where
  "ParseBool str =
     (if str \<in> set [''1'', ''t'', ''T'', ''true'', ''TRUE'', ''True''] then Inr True
      else if str \<in> set [''0'', ''f'', ''F'', ''false'', ''FALSE'', ''False''] then Inr False
      else Inl (NumError ''ParseBool'' str ErrSyntax))"

subsection \<open>Regular expressions, floating point and the platform\<close>

text \<open>
  \<open>IntSize\<close> is the width of \<open>int\<close> and \<open>uint\<close> on the platform. The environment holds
  the library functions that are taken as they are: \<open>regexp.Compile\<close> and
  \<open>(*Regexp).MatchString\<close> over any type \<open>'rx\<close> of compiled expressions,
  \<open>strconv.ParseFloat\<close> over any type \<open>'f\<close> of \<open>float64\<close> values, and the conversion
  \<open>float32(x)\<close> that \<open>reflect.Value.SetFloat\<close> applies to a \<open>float32\<close> field, with its
  result read as a \<open>float64\<close> again.
\<close>

datatype platform = Bits32 | Bits64

fun IntSize :: "platform \<Rightarrow> nat" where
  "IntSize Bits32 = 32"
| "IntSize Bits64 = 64"

record ('rx, 'f) Env =
  arch :: platform
  regexp_Compile :: "string \<Rightarrow> error + 'rx"
  MatchString :: "'rx \<Rightarrow> string \<Rightarrow> bool"
  ParseFloat :: "string \<Rightarrow> nat \<Rightarrow> error + 'f"
  float32 :: "'f \<Rightarrow> 'f"

subsection \<open>Package reflect: kinds, fields and setters\<close>

datatype Kind =
    reflect_Invalid | reflect_Bool
  | reflect_Int | reflect_Int8 | reflect_Int16 | reflect_Int32 | reflect_Int64
  | reflect_Uint | reflect_Uint8 | reflect_Uint16 | reflect_Uint32 | reflect_Uint64
  | reflect_Uintptr
  | reflect_Float32 | reflect_Float64 | reflect_Complex64 | reflect_Complex128
  | reflect_Array | reflect_Chan | reflect_Func | reflect_Interface | reflect_Map
  | reflect_Pointer | reflect_Slice | reflect_String | reflect_Struct
  | reflect_UnsafePointer

text \<open>
  The contents of a field. Values of the kinds that \<open>scan\<close> never writes are opaque.
\<close>

datatype 'f data =
    VString string | VBool bool | VInt int | VUint nat | VFloat 'f | VOpaque nat

text \<open>
  A field of the struct under \<open>reflect.ValueOf(input).Elem()\<close>: its struct tag as the
  key/value pairs it holds, in order, whether \<open>reflect.Value.CanSet\<close> holds for it (the
  struct is reached through a pointer, so this is whether the field is exported), its
  kind, and its contents.
\<close>

record 'f StructField =
  Tag :: "(string \<times> string) list"
  CanSet :: bool
  kind :: Kind
  val :: "'f data"

definition Tag_Get :: "(string \<times> string) list \<Rightarrow> string \<Rightarrow> string" where
  \<comment> \<open>\<open>StructTag.Get\<close>: the value of the first pair with the key, else the empty string\<close>
  "Tag_Get tag key = (case map_of tag key of None \<Rightarrow> [] | Some v \<Rightarrow> v)"

type_synonym Values = "string \<rightharpoonup> string list"

definition Values_Get :: "Values \<Rightarrow> string \<Rightarrow> string" where
  \<comment> \<open>\<open>url.Values.Get\<close>: the first value of the key, else the empty string\<close>
  "Values_Get v key = (case v key of None \<Rightarrow> [] | Some [] \<Rightarrow> [] | Some (x # _) \<Rightarrow> x)"

fun kind_bits :: "platform \<Rightarrow> Kind \<Rightarrow> nat" where
  "kind_bits p reflect_Int = IntSize p"
| "kind_bits p reflect_Int8 = 8"
| "kind_bits p reflect_Int16 = 16"
| "kind_bits p reflect_Int32 = 32"
| "kind_bits p reflect_Int64 = 64"
| "kind_bits p reflect_Uint = IntSize p"
| "kind_bits p reflect_Uint8 = 8"
| "kind_bits p reflect_Uint16 = 16"
| "kind_bits p reflect_Uint32 = 32"
| "kind_bits p reflect_Uint64 = 64"
| "kind_bits p reflect_Uintptr = IntSize p"
| "kind_bits p reflect_Float32 = 32"
| "kind_bits p reflect_Float64 = 64"
| "kind_bits p _ = 0"

definition int_conv :: "nat \<Rightarrow> int \<Rightarrow> int" where
  \<comment> \<open>the conversion of an \<open>int64\<close> to the signed type of \<open>w\<close> bits: two's complement\<close>
  "int_conv w x = (x + 2 ^ (w - 1)) mod 2 ^ w - 2 ^ (w - 1)"

definition uint_conv :: "nat \<Rightarrow> nat \<Rightarrow> nat" where
  \<comment> \<open>the conversion of a \<open>uint64\<close> to the unsigned type of \<open>w\<close> bits\<close>
  "uint_conv w x = x mod 2 ^ w"

text \<open>
  The setters are called on settable fields of a matching kind only, where they do not
  panic. \<open>SetInt\<close>, \<open>SetUint\<close> and \<open>SetFloat\<close> convert their 64-bit argument to the
  field's own type.
\<close>

definition SetString :: "'f StructField \<Rightarrow> string \<Rightarrow> 'f StructField" where
  "SetString v x = v\<lparr>val := VString x\<rparr>"

definition SetBool :: "'f StructField \<Rightarrow> bool \<Rightarrow> 'f StructField" where
  "SetBool v x = v\<lparr>val := VBool x\<rparr>"

definition SetInt :: "platform \<Rightarrow> 'f StructField \<Rightarrow> int \<Rightarrow> 'f StructField" where
  "SetInt p v x = v\<lparr>val := VInt (int_conv (kind_bits p (kind v)) x)\<rparr>"

definition SetUint :: "platform \<Rightarrow> 'f StructField \<Rightarrow> nat \<Rightarrow> 'f StructField" where
  "SetUint p v x = v\<lparr>val := VUint (uint_conv (kind_bits p (kind v)) x)\<rparr>"

definition SetFloat :: "('rx, 'f) Env \<Rightarrow> 'f StructField \<Rightarrow> 'f \<Rightarrow> 'f StructField" where
  "SetFloat env v x =
     v\<lparr>val := VFloat (if kind v = reflect_Float32 then float32 env x else x)\<rparr>"

subsection \<open>valid and scan\<close>

definition valid :: "('rx, 'f) Env \<Rightarrow> string \<Rightarrow> string \<Rightarrow> string \<Rightarrow> error option" where
  "valid env s validate msg =
     (if validate = [] then None
      else case regexp_Compile env validate of
             Inl err \<Rightarrow> Some err
           | Inr rxp \<Rightarrow>
               if \<not> MatchString env rxp s then Some (errors_New msg)
               else None)"

definition is_int_kind :: "Kind \<Rightarrow> bool" where
  "is_int_kind k =
     (k \<in> set [reflect_Int, reflect_Int8, reflect_Int16, reflect_Int32, reflect_Int64])"

definition is_uint_kind :: "Kind \<Rightarrow> bool" where
  "is_uint_kind k =
     (k \<in> set [reflect_Uint, reflect_Uint8, reflect_Uint16, reflect_Uint32, reflect_Uint64])"

definition is_float_kind :: "Kind \<Rightarrow> bool" where
  "is_float_kind k = (k \<in> set [reflect_Float32, reflect_Float64])"

text \<open>
  \<open>scan\<close> returns its error together with the field as it is after the call. The
  \<open>switch\<close> has no default: a field of any other kind (\<open>uintptr\<close> among them) is left
  as it is and the result is \<open>nil\<close>.
\<close>

definition scan ::
  "('rx, 'f) Env \<Rightarrow> 'f StructField \<Rightarrow> string \<Rightarrow> error option \<times> 'f StructField" where
  "scan env v s =
     (if \<not> CanSet v then (None, v)
      else if kind v = reflect_String then (None, SetString v s)
      else if kind v = reflect_Bool then
        (case ParseBool s of
           Inl err \<Rightarrow> (Some err, v)
         | Inr b \<Rightarrow> (None, SetBool v b))
      else if is_int_kind (kind v) then
        (case ParseInt s 64 of
           Inl err \<Rightarrow> (Some err, v)
         | Inr i \<Rightarrow> (None, SetInt (arch env) v i))
      else if is_uint_kind (kind v) then
        (case ParseUint s 64 of
           Inl err \<Rightarrow> (Some err, v)
         | Inr x \<Rightarrow> (None, SetUint (arch env) v x))
      else if is_float_kind (kind v) then
        (case ParseFloat env s 64 of
           Inl err \<Rightarrow> (Some err, v)
         | Inr f \<Rightarrow> (None, SetFloat env v f))
      else (None, v))"

subsection \<open>parseValidForm and Context.ParseValidForm\<close>

text \<open>
  What \<open>input\<close> holds: a non-nil pointer to a struct, or anything else, for which
  \<open>Elem\<close>, \<open>Type\<close> or \<open>NumField\<close> panics before any field is touched.
\<close>

datatype 'f input = PtrToStruct "'f StructField list" | NotPtrToStruct

datatype 'a outcome = Panic | Return 'a

text \<open>
  One pass of the loop body on field \<open>i\<close>: the error, if any, and the field afterwards.
\<close>

definition bind_field ::
  "('rx, 'f) Env \<Rightarrow> Values \<Rightarrow> 'f StructField \<Rightarrow> error option \<times> 'f StructField" where
  "bind_field env form field =
     (let tag = Tag field;
          formName = Tag_Get tag inputTagName;
          validate = Tag_Get tag validTagName;
          validateMsg = Tag_Get tag validMsgName;
          formValue = Values_Get form formName
      in case valid env formValue validate validateMsg of
           Some err \<Rightarrow> (Some err, field)
         | None \<Rightarrow> scan env field formValue)"

function parseValidForm_loop ::
  "('rx, 'f) Env \<Rightarrow> Values \<Rightarrow> nat \<Rightarrow> 'f StructField list
     \<Rightarrow> error option \<times> 'f StructField list" where
  "parseValidForm_loop env form i flds =
     (if i < length flds then
        (case bind_field env form (flds ! i) of
           (Some err, field) \<Rightarrow> (Some err, flds[i := field])
         | (None, field) \<Rightarrow> parseValidForm_loop env form (i + 1) (flds[i := field]))
      else (None, flds))"
  by pat_completeness auto
termination
  by (relation "measure (\<lambda>(env, form, i, flds). length flds - i)") auto

definition parseValidForm ::
  "('rx, 'f) Env \<Rightarrow> 'f input \<Rightarrow> Values \<Rightarrow> (error option \<times> 'f input) outcome" where
  "parseValidForm env inp form =
     (case inp of
        NotPtrToStruct \<Rightarrow> Panic
      | PtrToStruct flds \<Rightarrow>
          (case parseValidForm_loop env form 0 flds of
             (err, flds') \<Rightarrow> Return (err, PtrToStruct flds')))"

text \<open>
  The request as the package reads it: the data the form is parsed from, left opaque, and
  the parsed \<open>Form\<close>. The response writer is an interface of the host server; the model
  records the calls made on it, in order. The host and the encoding packages are
  parameters: \<open>(*Request).ParseForm\<close> returns its error and the request as it leaves it;
  \<open>Write_result\<close> is what the writer answers to \<open>Write\<close> after the calls so far; an
  encoder that was given the writer as an \<open>io.Writer\<close> can do nothing with it but
  \<open>Write\<close>, any number of times, each call depending on the answers so far, before it
  returns its error.
\<close>

record Request =
  raw :: string
  Form :: Values

datatype rw_call = Header_Add string string | WriteHeader int | Write string

type_synonym ResponseWriter = "rw_call list"

record Context =
  req :: Request
  rw :: ResponseWriter

datatype encoding = Done "error option" | DoWrite string "nat \<times> error option \<Rightarrow> encoding"

record 'v Host =
  ParseForm :: "Request \<Rightarrow> error option \<times> Request"
  Write_result :: "ResponseWriter \<Rightarrow> string \<Rightarrow> nat \<times> error option"
  json_Encode :: "'v \<Rightarrow> encoding"
  xml_Encode :: "'v \<Rightarrow> encoding"
  asn1_Marshal :: "'v \<Rightarrow> error + string"

definition ParseValidForm ::
  "('rx, 'f) Env \<Rightarrow> 'v Host \<Rightarrow> Context \<Rightarrow> 'f input
     \<Rightarrow> (error option \<times> Context \<times> 'f input) outcome" where
  "ParseValidForm env host c inp =
     (case ParseForm host (req c) of
        (Some err, r) \<Rightarrow> Return (Some err, c\<lparr>req := r\<rparr>, inp)
      | (None, r) \<Rightarrow>
          (case parseValidForm env inp (Form r) of
             Panic \<Rightarrow> Panic
           | Return (err, inp') \<Rightarrow> Return (err, c\<lparr>req := r\<rparr>, inp')))"

subsection \<open>Response methods\<close>

definition Status :: "Context \<Rightarrow> int \<Rightarrow> Context" where
  "Status c code = c\<lparr>rw := rw c @ [WriteHeader code]\<rparr>"

definition Head :: "Context \<Rightarrow> string \<Rightarrow> string \<Rightarrow> Context" where
  "Head c k v = c\<lparr>rw := rw c @ [Header_Add k v]\<rparr>"

definition rw_Write :: "'v Host \<Rightarrow> ResponseWriter \<Rightarrow> string \<Rightarrow> (nat \<times> error option) \<times> ResponseWriter" where
  "rw_Write host w bts = (Write_result host w bts, w @ [Write bts])"

primrec Encode :: "'v Host \<Rightarrow> encoding \<Rightarrow> ResponseWriter \<Rightarrow> error option \<times> ResponseWriter" where
  "Encode host (Done err) w = (err, w)"
| "Encode host (DoWrite bts k) w =
     (case rw_Write host w bts of (res, w') \<Rightarrow> Encode host (k res) w')"

definition JSON :: "'v Host \<Rightarrow> Context \<Rightarrow> 'v \<Rightarrow> error option \<times> Context" where
  "JSON host c i =
     (let c1 = Head c contentType applicationJSON
      in case Encode host (json_Encode host i) (rw c1) of
           (err, w) \<Rightarrow> (err, c1\<lparr>rw := w\<rparr>))"

definition XML :: "'v Host \<Rightarrow> Context \<Rightarrow> 'v \<Rightarrow> error option \<times> Context" where
  "XML host c i =
     (let c1 = Head c contentType applicationXML
      in case Encode host (xml_Encode host i) (rw c1) of
           (err, w) \<Rightarrow> (err, c1\<lparr>rw := w\<rparr>))"

definition ASN1 :: "'v Host \<Rightarrow> Context \<Rightarrow> 'v \<Rightarrow> error option \<times> Context" where
  "ASN1 host c i =
     (let c1 = Head c contentType applicationASN1
      in case asn1_Marshal host i of
           Inl err \<Rightarrow> (Some err, c1)
         | Inr bts \<Rightarrow>
             (case rw_Write host (rw c1) bts of
                ((n, err), w) \<Rightarrow> (err, c1\<lparr>rw := w\<rparr>)))"

subsection \<open>Notions of the specification\<close>

text \<open>
  The value under the field's \<open>form\<close> tag name, and the outcome of the field's
  validation on it.
\<close>

definition form_value :: "Values \<Rightarrow> 'f StructField \<Rightarrow> string" where
  "form_value form fld = Values_Get form (Tag_Get (Tag fld) inputTagName)"

definition field_valid :: "('rx, 'f) Env \<Rightarrow> Values \<Rightarrow> 'f StructField \<Rightarrow> error option" where
  "field_valid env form fld =
     valid env (form_value form fld) (Tag_Get (Tag fld) validTagName)
       (Tag_Get (Tag fld) validMsgName)"

text \<open>
  The loop reaches field \<open>j\<close> when every field before it bound without error.
\<close>

definition reaches :: "('rx, 'f) Env \<Rightarrow> Values \<Rightarrow> 'f StructField list \<Rightarrow> nat \<Rightarrow> bool" where
  "reaches env form flds j =
     (j < length flds \<and> list_all (\<lambda>fld. fst (bind_field env form fld) = None) (take j flds))"

text \<open>
  The value that a string gives in the type of a field of kind \<open>k\<close>: the string itself,
  or what \<open>strconv.ParseBool\<close>, or \<open>strconv.ParseInt\<close> and \<open>strconv.ParseUint\<close> in base
  10 at the width of the kind, return for it; for the floating point kinds, what
  \<open>strconv.ParseFloat\<close> returns for it at 64 bits, converted to the type of the field
  (\<open>float32(f)\<close> for a \<open>float32\<close> field, \<open>f\<close> itself for a \<open>float64\<close> field). No value
  parses in a kind outside the five families.
\<close>

definition parsed_value :: "('rx, 'f) Env \<Rightarrow> Kind \<Rightarrow> string \<Rightarrow> 'f data option" where
  "parsed_value env k s =
     (if k = reflect_String then Some (VString s)
      else if k = reflect_Bool then
        (case ParseBool s of Inl err \<Rightarrow> None | Inr b \<Rightarrow> Some (VBool b))
      else if is_int_kind k then
        (case ParseInt s (kind_bits (arch env) k) of Inl err \<Rightarrow> None | Inr i \<Rightarrow> Some (VInt i))
      else if is_uint_kind k then
        (case ParseUint s (kind_bits (arch env) k) of Inl err \<Rightarrow> None | Inr x \<Rightarrow> Some (VUint x))
      else if is_float_kind k then
        (case ParseFloat env s 64 of
           Inl err \<Rightarrow> None
         | Inr f \<Rightarrow> Some (VFloat (if k = reflect_Float32 then float32 env f else f)))
      else None)"

text \<open>
  The error of the strconv function of a numeric kind on a string, as \<open>scan\<close> calls it.
\<close>

definition strconv_error :: "('rx, 'f) Env \<Rightarrow> Kind \<Rightarrow> string \<Rightarrow> error option" where
  "strconv_error env k s =
     (if is_int_kind k then (case ParseInt s 64 of Inl err \<Rightarrow> Some err | Inr i \<Rightarrow> None)
      else if is_uint_kind k then (case ParseUint s 64 of Inl err \<Rightarrow> Some err | Inr x \<Rightarrow> None)
      else if is_float_kind k then (case ParseFloat env s 64 of Inl err \<Rightarrow> Some err | Inr f \<Rightarrow> None)
      else None)"

text \<open>
  A parse error is an error of package strconv.
\<close>

fun is_parse_error :: "error \<Rightarrow> bool" where
  "is_parse_error (NumError fn num err) = True"
| "is_parse_error _ = False"

subsection \<open>A sample environment\<close>

text \<open>
  An environment and a host to run the definitions on. The sample regular expressions
  agree with package regexp on the patterns used below: \<open>(\<close> does not compile (missing
  closing parenthesis), \<open>^[0-9]+$\<close> matches the non-empty strings of decimal digits, and
  a pattern without metacharacters matches the strings that contain it. The sample
  floating point values are the integers that a \<open>float64\<close> can hold. A \<open>float64\<close> keeps
  53 significant bits and a \<open>float32\<close> keeps 24, and both \<open>strconv.ParseFloat\<close> and the
  conversion \<open>float32(x)\<close> round to the nearest value, a tie going to the even one:
  \<open>round_half_even p\<close> rounds an integer to \<open>p\<close> significant bits in this way. The
  sample \<open>ParseFloat\<close> agrees with package strconv on the empty string and on the
  decimal integers that fit 64 bits. The sample host rejects the form data \<open>%zz\<close>, a
  malformed escape, and its encoders write their argument in one piece.
\<close>

function shift_for :: "nat \<Rightarrow> nat \<Rightarrow> nat" where
  \<comment> \<open>the number of low bits that \<open>a\<close> has beyond \<open>p\<close> significant ones\<close>
  "shift_for p a = (if a < 2 ^ p then 0 else Suc (shift_for p (a div 2)))"
  by pat_completeness auto
termination
proof (relation "measure snd")
  show "wf (measure snd)" by simp
next
  fix p a :: nat
  assume "\<not> a < 2 ^ p"
  then have "0 < a" by (cases "a = 0") simp_all
  then show "((p, a div 2), (p, a)) \<in> measure snd" by simp
qed

definition round_half_even :: "nat \<Rightarrow> int \<Rightarrow> int" where
  "round_half_even p x =
     (let a = nat \<bar>x\<bar>;
          s = shift_for p a;
          q = a div 2 ^ s;
          r = a mod 2 ^ s
      in sgn x * int ((if 2 * r > 2 ^ s \<or> (2 * r = 2 ^ s \<and> odd q) then q + 1 else q) * 2 ^ s))"

definition sample_Compile :: "string \<Rightarrow> error + string" where
  "sample_Compile expr =
     (if expr = ''('' then Inl (syntax_Error ''missing closing )'' expr) else Inr expr)"

definition sample_MatchString :: "string \<Rightarrow> string \<Rightarrow> bool" where
  "sample_MatchString rx s =
     (if rx = ''^[0-9]+$'' then s \<noteq> [] \<and> list_all is_digit s
      else list_ex (\<lambda>i. take (length rx) (drop i s) = rx) [0..<Suc (length s)])"

definition sample_ParseFloat :: "string \<Rightarrow> nat \<Rightarrow> error + int" where
  "sample_ParseFloat s bitSize =
     (case ParseInt s 64 of
        Inl err \<Rightarrow> Inl (NumError ''ParseFloat'' s ErrSyntax)
      | Inr i \<Rightarrow> Inr (round_half_even (if bitSize = 32 then 24 else 53) i))"

definition sample_env :: "(string, int) Env" where
  "sample_env =
     \<lparr>arch = Bits64, regexp_Compile = sample_Compile, MatchString = sample_MatchString,
      ParseFloat = sample_ParseFloat, float32 = round_half_even 24\<rparr>"

definition sample_host :: "string Host" where
  "sample_host =
     \<lparr>ParseForm = (\<lambda>r. if raw r = ''%zz''
                          then (Some (host_error ''invalid URL escape''), r) else (None, r)),
      Write_result = (\<lambda>w bts. (length bts, None)),
      json_Encode = (\<lambda>i. DoWrite i (\<lambda>res. Done (snd res))),
      xml_Encode = (\<lambda>i. DoWrite i (\<lambda>res. Done (snd res))),
      asn1_Marshal = (\<lambda>i. Inr i)\<rparr>"

text \<open>
  A sample struct: an exported string \<open>Name\<close> that must be decimal digits, an exported
  \<open>int8\<close>, an exported \<open>bool\<close>, an exported \<open>uint16\<close>, an exported \<open>float64\<close> and an
  unexported string.
\<close>

definition sample_field :: "string \<Rightarrow> string \<Rightarrow> string \<Rightarrow> bool \<Rightarrow> Kind \<Rightarrow> int data \<Rightarrow> int StructField" where
  "sample_field name pattern message settable k v =
     \<lparr>Tag = [(''form'', name), (''valid'', pattern), (''msg'', message)],
      CanSet = settable, kind = k, val = v\<rparr>"

definition sample_struct :: "int StructField list" where
  "sample_struct =
     [sample_field ''name'' ''^[0-9]+$'' ''name must be digits'' True reflect_String (VString []),
      sample_field ''age'' [] [] True reflect_Int8 (VInt 0),
      sample_field ''ok'' [] [] True reflect_Bool (VBool False),
      sample_field ''port'' [] [] True reflect_Uint16 (VUint 0),
      sample_field ''rate'' [] [] True reflect_Float64 (VFloat 0),
      sample_field ''note'' [] [] False reflect_String (VString ''keep'')]"

definition sample_form :: Values where
  "sample_form =
     [''name'' \<mapsto> [''42''], ''age'' \<mapsto> [''-7''], ''ok'' \<mapsto> [''true''],
      ''port'' \<mapsto> [''8080''], ''rate'' \<mapsto> [''3''], ''note'' \<mapsto> [''x'']]"

section \<open>Properties\<close>

subsection \<open>Parsing at a narrower width\<close>

lemma ParseUint_loop_mono:
  "ParseUint_loop m n cs = Inr v \<Longrightarrow> m \<le> m' \<Longrightarrow> ParseUint_loop m' n cs = Inr v"
proof (induction cs arbitrary: n)
  case Nil
  then show ?case by simp
next
  case (Cons c cs)
  then show ?case
    by (auto simp: Let_def split: if_splits)
qed

lemma ParseUint_loop_le:
  "ParseUint_loop m n cs = Inr v \<Longrightarrow> n \<le> m \<Longrightarrow> v \<le> m"
proof (induction cs arbitrary: n)
  case Nil
  then show ?case by simp
next
  case (Cons c cs)
  then show ?case
    by (auto simp: Let_def split: if_splits)
qed

lemma ParseUint_narrow:
  assumes "ParseUint s w = Inr v" and "w \<le> 64"
  shows "ParseUint s 64 = Inr v" and "v < 2 ^ w"
proof -
  from assms(1) have ne: "s \<noteq> []" and l: "ParseUint_loop (2 ^ w - 1) 0 s = Inr v"
    by (auto simp: ParseUint_def split: if_splits sum.splits)
  have "(2::nat) ^ w \<le> 2 ^ 64" using assms(2) by (rule power_increasing) simp
  then have "(2::nat) ^ w - 1 \<le> 2 ^ 64 - 1" by simp
  with l have "ParseUint_loop (2 ^ 64 - 1) 0 s = Inr v" by (rule ParseUint_loop_mono)
  with ne show "ParseUint s 64 = Inr v" by (simp add: ParseUint_def)
  from l have "v \<le> 2 ^ w - 1" by (rule ParseUint_loop_le) simp
  then show "v < 2 ^ w" by (simp add: Nat.le_diff_conv2 less_eq_Suc_le)
qed

lemma uint_conv_id: "v < 2 ^ w \<Longrightarrow> uint_conv w v = v"
  by (simp add: uint_conv_def)

lemma int_conv_id:
  assumes "0 < w" and "- (2 ^ (w - 1)) \<le> x" and "x < 2 ^ (w - 1)"
  shows "int_conv w x = x"
proof -
  have p: "(2::int) ^ w = 2 * 2 ^ (w - 1)"
    using assms(1) by (cases w) simp_all
  have "0 \<le> x + 2 ^ (w - 1)" and "x + 2 ^ (w - 1) < 2 ^ w"
    using assms p by simp_all
  then have "(x + 2 ^ (w - 1)) mod 2 ^ w = x + 2 ^ (w - 1)" by simp
  then show ?thesis by (simp add: int_conv_def)
qed

lemma ParseInt_narrow:
  assumes "ParseInt s w = Inr v" and "0 < w" and "w \<le> 64"
  shows "ParseInt s 64 = Inr v" and "- (2 ^ (w - 1)) \<le> v" and "v < 2 ^ (w - 1)"
proof -
  define t where "t = (if hd s = CHR ''+'' \<or> hd s = CHR ''-'' then tl s else s)"
  from assms(1) have ne: "s \<noteq> []"
    by (auto simp: ParseInt_def split: if_splits)
  from assms(1) ne obtain un where un: "ParseUint t w = Inr un"
    by (cases "ParseUint t w")
       (auto simp: ParseInt_def Let_def t_def split: error.splits strconv_Err.splits)
  from un assms(3) have un64: "ParseUint t 64 = Inr un" by (rule ParseUint_narrow)
  have c: "(2::nat) ^ (w - 1) \<le> 2 ^ 63"
    using assms(3) by (intro power_increasing) simp_all
  from assms(1) ne un have
    r: "\<not> (hd s \<noteq> CHR ''-'' \<and> un \<ge> 2 ^ (w - 1))" "\<not> (hd s = CHR ''-'' \<and> un > 2 ^ (w - 1))"
       "v = (if hd s = CHR ''-'' then - int un else int un)"
    by (auto simp: ParseInt_def Let_def t_def split: if_splits)
  from r c have r64: "\<not> (hd s \<noteq> CHR ''-'' \<and> un \<ge> 2 ^ 63)" "\<not> (hd s = CHR ''-'' \<and> un > 2 ^ 63)"
    by auto
  show "ParseInt s 64 = Inr v"
    using ne un64 r(3) r64 by (auto simp: ParseInt_def Let_def t_def)
  have i: "int ((2::nat) ^ (w - 1)) = 2 ^ (w - 1)" by simp
  show "- (2 ^ (w - 1)) \<le> v"
  proof (cases "hd s = CHR ''-''")
    case True
    with r have "un \<le> 2 ^ (w - 1)" by simp
    then have "int un \<le> 2 ^ (w - 1)" using i by linarith
    with True r(3) show ?thesis by simp
  next
    case False
    with r(3) have "0 \<le> v" by simp
    moreover have "- ((2::int) ^ (w - 1)) \<le> 0" by simp
    ultimately show ?thesis by linarith
  qed
  show "v < 2 ^ (w - 1)"
  proof (cases "hd s = CHR ''-''")
    case True
    with r(3) have "v \<le> 0" by simp
    moreover have "0 < (2::int) ^ (w - 1)" by simp
    ultimately show ?thesis by linarith
  next
    case False
    with r have "un < 2 ^ (w - 1)" by simp
    then have "int un < 2 ^ (w - 1)" using i by linarith
    with False r(3) show ?thesis by simp
  qed
qed

subsection \<open>One field\<close>

lemma bind_field_eq:
  "bind_field env form fld =
     (case field_valid env form fld of
        Some err \<Rightarrow> (Some err, fld)
      | None \<Rightarrow> scan env fld (form_value form fld))"
  by (simp add: bind_field_def field_valid_def form_value_def Let_def split: option.splits)

lemma scan_error_unchanged: "fst (scan env v s) = Some err \<Longrightarrow> snd (scan env v s) = v"
  by (auto simp: scan_def split: if_splits sum.splits)

lemma bind_field_error_unchanged:
  "fst (bind_field env form fld) = Some err \<Longrightarrow> snd (bind_field env form fld) = fld"
  by (auto simp: bind_field_eq scan_error_unchanged split: option.splits)

lemma scan_unsettable: "\<not> CanSet v \<Longrightarrow> scan env v s = (None, v)"
  by (simp add: scan_def)

lemma bind_field_unsettable:
  "\<not> CanSet fld \<Longrightarrow> snd (bind_field env form fld) = fld"
  by (simp add: bind_field_eq scan_unsettable split: option.splits)

lemma kind_bits_int: "is_int_kind k \<Longrightarrow> 0 < kind_bits p k \<and> kind_bits p k \<le> 64"
  by (cases p) (auto simp: is_int_kind_def)

lemma kind_bits_uint: "is_uint_kind k \<Longrightarrow> 0 < kind_bits p k \<and> kind_bits p k \<le> 64"
  by (cases p) (auto simp: is_uint_kind_def)

lemma kinds_disjoint:
  "is_int_kind k \<Longrightarrow> k \<noteq> reflect_String \<and> k \<noteq> reflect_Bool"
  "is_uint_kind k \<Longrightarrow> k \<noteq> reflect_String \<and> k \<noteq> reflect_Bool \<and> \<not> is_int_kind k"
  "is_float_kind k \<Longrightarrow>
     k \<noteq> reflect_String \<and> k \<noteq> reflect_Bool \<and> \<not> is_int_kind k \<and> \<not> is_uint_kind k"
  by (auto simp: is_int_kind_def is_uint_kind_def is_float_kind_def)

lemma scan_parsed:
  assumes "CanSet v" and "parsed_value env (kind v) s = Some x"
  shows "scan env v s = (None, v\<lparr>val := x\<rparr>)"
proof -
  consider (str) "kind v = reflect_String" | (bool) "kind v = reflect_Bool"
    | (int) "is_int_kind (kind v)" | (uint) "is_uint_kind (kind v)"
    | (float) "is_float_kind (kind v)"
    using assms(2) by (auto simp: parsed_value_def split: if_splits)
  then show ?thesis
  proof cases
    case str
    with assms show ?thesis by (simp add: scan_def parsed_value_def SetString_def)
  next
    case bool
    with assms show ?thesis
      by (auto simp: scan_def parsed_value_def SetBool_def split: sum.splits)
  next
    case int
    note k = kinds_disjoint(1) [OF int]
    from assms(2) int k obtain i where
      p: "ParseInt s (kind_bits (arch env) (kind v)) = Inr i" and x: "x = VInt i"
      by (auto simp: parsed_value_def split: sum.splits)
    note b = kind_bits_int [OF int, of "arch env"]
    from p b have p64: "ParseInt s 64 = Inr i"
      and "- (2 ^ (kind_bits (arch env) (kind v) - 1)) \<le> i"
      and "i < 2 ^ (kind_bits (arch env) (kind v) - 1)"
      by (auto dest: ParseInt_narrow)
    with b have "int_conv (kind_bits (arch env) (kind v)) i = i"
      by (simp add: int_conv_id)
    with assms(1) int k p64 x show ?thesis
      by (simp add: scan_def SetInt_def)
  next
    case uint
    note k = kinds_disjoint(2) [OF uint]
    from assms(2) uint k obtain n where
      p: "ParseUint s (kind_bits (arch env) (kind v)) = Inr n" and x: "x = VUint n"
      by (auto simp: parsed_value_def split: sum.splits)
    note b = kind_bits_uint [OF uint, of "arch env"]
    from p b have p64: "ParseUint s 64 = Inr n" and "n < 2 ^ kind_bits (arch env) (kind v)"
      by (auto dest: ParseUint_narrow)
    then have "uint_conv (kind_bits (arch env) (kind v)) n = n"
      by (simp add: uint_conv_id)
    with assms(1) uint k p64 x show ?thesis
      by (simp add: scan_def SetUint_def)
  next
    case float
    note k = kinds_disjoint(3) [OF float]
    from assms(2) float k obtain f where
      p: "ParseFloat env s 64 = Inr f"
      and x: "x = VFloat (if kind v = reflect_Float32 then float32 env f else f)"
      by (auto simp: parsed_value_def split: sum.splits)
    with assms(1) float k show ?thesis
      by (simp add: scan_def SetFloat_def)
  qed
qed

subsection \<open>The loop over the fields\<close>

declare parseValidForm_loop.simps [simp del]

declare shift_for.simps [simp del]

lemma loop_done: "length flds \<le> i \<Longrightarrow> parseValidForm_loop env form i flds = (None, flds)"
  by (subst parseValidForm_loop.simps) simp

lemma loop_err:
  "i < length flds \<Longrightarrow> bind_field env form (flds ! i) = (Some err, fld) \<Longrightarrow>
   parseValidForm_loop env form i flds = (Some err, flds[i := fld])"
  by (subst parseValidForm_loop.simps) simp

lemma loop_next:
  "i < length flds \<Longrightarrow> bind_field env form (flds ! i) = (None, fld) \<Longrightarrow>
   parseValidForm_loop env form i flds = parseValidForm_loop env form (Suc i) (flds[i := fld])"
  by (subst parseValidForm_loop.simps) simp

lemma loop_length: "length (snd (parseValidForm_loop env form i flds)) = length flds"
proof (induction env form i flds rule: parseValidForm_loop.induct)
  case (1 env form i flds)
  show ?case
  proof (cases "i < length flds")
    case False
    then show ?thesis by (simp add: loop_done)
  next
    case True
    obtain r fld where b: "bind_field env form (flds ! i) = (r, fld)"
      by (cases "bind_field env form (flds ! i)")
    show ?thesis
    proof (cases r)
      case None
      with True b "1.IH" [of None fld] show ?thesis
        by (simp add: loop_next)
    next
      case (Some e)
      with True b show ?thesis by (simp add: loop_err)
    qed
  qed
qed

lemma loop_below:
  "k < i \<Longrightarrow> snd (parseValidForm_loop env form i flds) ! k = flds ! k"
proof (induction env form i flds rule: parseValidForm_loop.induct)
  case (1 env form i flds)
  show ?case
  proof (cases "i < length flds")
    case False
    then show ?thesis by (simp add: loop_done)
  next
    case True
    obtain r fld where b: "bind_field env form (flds ! i) = (r, fld)"
      by (cases "bind_field env form (flds ! i)")
    show ?thesis
    proof (cases r)
      case None
      with True b "1.IH" [of None fld] "1.prems" show ?thesis
        by (simp add: loop_next)
    next
      case (Some e)
      with True b "1.prems" show ?thesis by (simp add: loop_err)
    qed
  qed
qed

lemma loop_success:
  "(\<forall>k. i \<le> k \<and> k < length flds \<longrightarrow> fst (bind_field env form (flds ! k)) = None) \<Longrightarrow>
   fst (parseValidForm_loop env form i flds) = None \<and>
   (\<forall>k. i \<le> k \<and> k < length flds \<longrightarrow>
      snd (parseValidForm_loop env form i flds) ! k = snd (bind_field env form (flds ! k)))"
proof (induction env form i flds rule: parseValidForm_loop.induct)
  case (1 env form i flds)
  show ?case
  proof (cases "i < length flds")
    case False
    then show ?thesis by (auto simp add: loop_done)
  next
    case True
    obtain fld where b: "bind_field env form (flds ! i) = (None, fld)"
      using "1.prems" True by (cases "bind_field env form (flds ! i)") auto
    have step: "parseValidForm_loop env form i flds =
        parseValidForm_loop env form (Suc i) (flds[i := fld])"
      using True b by (rule loop_next)
    have ih: "fst (parseValidForm_loop env form (Suc i) (flds[i := fld])) = None \<and>
      (\<forall>k. Suc i \<le> k \<and> k < length flds \<longrightarrow>
         snd (parseValidForm_loop env form (Suc i) (flds[i := fld])) ! k =
         snd (bind_field env form (flds ! k)))"
      using "1.IH" [of None fld] True b "1.prems" by simp
    have at_i: "snd (parseValidForm_loop env form (Suc i) (flds[i := fld])) ! i = fld"
      using loop_below [of i "Suc i" env form "flds[i := fld]"] True by simp
    show ?thesis
    proof (intro conjI allI impI)
      show "fst (parseValidForm_loop env form i flds) = None"
        using step ih by simp
    next
      fix k assume k: "i \<le> k \<and> k < length flds"
      show "snd (parseValidForm_loop env form i flds) ! k = snd (bind_field env form (flds ! k))"
      proof (cases "k = i")
        case True
        then show ?thesis using step at_i b by simp
      next
        case False
        with k have "Suc i \<le> k \<and> k < length flds" by simp
        then show ?thesis using step ih by simp
      qed
    qed
  qed
qed

lemma loop_fail:
  "i \<le> j \<Longrightarrow> j < length flds \<Longrightarrow>
   (\<forall>k. i \<le> k \<and> k < j \<longrightarrow> fst (bind_field env form (flds ! k)) = None) \<Longrightarrow>
   fst (bind_field env form (flds ! j)) = Some err \<Longrightarrow>
   fst (parseValidForm_loop env form i flds) = Some err \<and>
   (\<forall>k. i \<le> k \<and> k \<le> j \<longrightarrow>
      snd (parseValidForm_loop env form i flds) ! k = snd (bind_field env form (flds ! k))) \<and>
   (\<forall>k. j < k \<longrightarrow> snd (parseValidForm_loop env form i flds) ! k = flds ! k)"
proof (induction env form i flds rule: parseValidForm_loop.induct)
  case (1 env form i flds)
  have il: "i < length flds" using "1.prems" by simp
  show ?case
  proof (cases "i = j")
    case True
    obtain fld where b: "bind_field env form (flds ! i) = (Some err, fld)"
      using "1.prems" True by (cases "bind_field env form (flds ! i)") auto
    have "parseValidForm_loop env form i flds = (Some err, flds[i := fld])"
      using il b by (rule loop_err)
    then show ?thesis using True b il by auto
  next
    case False
    then have ij: "Suc i \<le> j" using "1.prems" by simp
    obtain fld where b: "bind_field env form (flds ! i) = (None, fld)"
      using "1.prems" False by (cases "bind_field env form (flds ! i)") auto
    have step: "parseValidForm_loop env form i flds =
        parseValidForm_loop env form (Suc i) (flds[i := fld])"
      using il b by (rule loop_next)
    have ih: "fst (parseValidForm_loop env form (Suc i) (flds[i := fld])) = Some err \<and>
      (\<forall>k. Suc i \<le> k \<and> k \<le> j \<longrightarrow>
         snd (parseValidForm_loop env form (Suc i) (flds[i := fld])) ! k =
         snd (bind_field env form (flds ! k))) \<and>
      (\<forall>k. j < k \<longrightarrow> snd (parseValidForm_loop env form (Suc i) (flds[i := fld])) ! k = flds ! k)"
      using "1.IH" [of None fld] il b ij "1.prems" by simp
    have at_i: "snd (parseValidForm_loop env form (Suc i) (flds[i := fld])) ! i = fld"
      using loop_below [of i "Suc i" env form "flds[i := fld]"] il by simp
    show ?thesis
    proof (intro conjI allI impI)
      show "fst (parseValidForm_loop env form i flds) = Some err"
        using step ih by simp
    next
      fix k assume k: "i \<le> k \<and> k \<le> j"
      show "snd (parseValidForm_loop env form i flds) ! k = snd (bind_field env form (flds ! k))"
      proof (cases "k = i")
        case True
        then show ?thesis using step at_i b by simp
      next
        case False
        with k have "Suc i \<le> k \<and> k \<le> j" by simp
        then show ?thesis using step ih by simp
      qed
    next
      fix k assume "j < k"
      then show "snd (parseValidForm_loop env form i flds) ! k = flds ! k"
        using step ih by simp
    qed
  qed
qed

lemma loop_None_all:
  "fst (parseValidForm_loop env form i flds) = None \<Longrightarrow> i \<le> k \<Longrightarrow> k < length flds \<Longrightarrow>
   fst (bind_field env form (flds ! k)) = None"
proof (induction env form i flds rule: parseValidForm_loop.induct)
  case (1 env form i flds)
  have il: "i < length flds" using "1.prems" by simp
  obtain r fld where b: "bind_field env form (flds ! i) = (r, fld)"
    by (cases "bind_field env form (flds ! i)")
  show ?case
  proof (cases r)
    case (Some e)
    then show ?thesis using il b "1.prems" by (simp add: loop_err)
  next
    case None
    have step: "parseValidForm_loop env form i flds =
        parseValidForm_loop env form (Suc i) (flds[i := fld])"
      using il b None by (simp add: loop_next)
    show ?thesis
    proof (cases "k = i")
      case True
      then show ?thesis using b None by simp
    next
      case False
      then have "Suc i \<le> k" using "1.prems" by simp
      then show ?thesis
        using "1.IH" [of None fld] il b None step "1.prems" False by simp
    qed
  qed
qed

lemma reaches_iff:
  "reaches env form flds j \<longleftrightarrow>
     j < length flds \<and> (\<forall>k. k < j \<longrightarrow> fst (bind_field env form (flds ! k)) = None)"
  by (auto simp: reaches_def list_all_length)

lemma loop_reached:
  "i \<le> j \<Longrightarrow> j < length flds \<Longrightarrow>
   (\<forall>k. i \<le> k \<and> k < j \<longrightarrow> fst (bind_field env form (flds ! k)) = None) \<Longrightarrow>
   snd (parseValidForm_loop env form i flds) ! j = snd (bind_field env form (flds ! j)) \<and>
   (fst (bind_field env form (flds ! j)) \<noteq> None \<longrightarrow>
      fst (parseValidForm_loop env form i flds) = fst (bind_field env form (flds ! j)))"
proof (cases "fst (bind_field env form (flds ! j))")
  case (Some err)
  assume "i \<le> j" "j < length flds"
    "\<forall>k. i \<le> k \<and> k < j \<longrightarrow> fst (bind_field env form (flds ! k)) = None"
  from loop_fail [OF this Some] Some \<open>i \<le> j\<close> show ?thesis by auto
next
  case None
  assume a: "i \<le> j" "j < length flds"
    "\<forall>k. i \<le> k \<and> k < j \<longrightarrow> fst (bind_field env form (flds ! k)) = None"
  show ?thesis
  proof (cases "\<exists>m. j < m \<and> m < length flds \<and> fst (bind_field env form (flds ! m)) \<noteq> None")
    case False
    then have "\<forall>k. i \<le> k \<and> k < length flds \<longrightarrow> fst (bind_field env form (flds ! k)) = None"
      using a None by (metis linorder_neqE_nat)
    from loop_success [OF this] a None show ?thesis by simp
  next
    case True
    define m where "m = (LEAST m. j < m \<and> m < length flds \<and> fst (bind_field env form (flds ! m)) \<noteq> None)"
    from True have m: "j < m \<and> m < length flds \<and> fst (bind_field env form (flds ! m)) \<noteq> None"
      unfolding m_def by (rule LeastI_ex)
    have least: "\<And>k. j < k \<Longrightarrow> k < m \<Longrightarrow> fst (bind_field env form (flds ! k)) = None"
    proof (rule ccontr)
      fix k assume k: "j < k" "k < m" and "fst (bind_field env form (flds ! k)) \<noteq> None"
      with m have "j < k \<and> k < length flds \<and> fst (bind_field env form (flds ! k)) \<noteq> None" by simp
      then have "m \<le> k" unfolding m_def by (rule Least_le)
      with k show False by simp
    qed
    from m obtain err where e: "fst (bind_field env form (flds ! m)) = Some err" by auto
    have pre: "\<forall>k. i \<le> k \<and> k < m \<longrightarrow> fst (bind_field env form (flds ! k)) = None"
      using a None least by (metis linorder_neqE_nat)
    have "i \<le> m" using a m by simp
    from loop_fail [OF this _ pre e] m a None show ?thesis by simp
  qed
qed

lemma loop_nth_cases:
  "k < length flds \<Longrightarrow>
   snd (parseValidForm_loop env form i flds) ! k = flds ! k \<or>
   snd (parseValidForm_loop env form i flds) ! k = snd (bind_field env form (flds ! k))"
proof (induction env form i flds rule: parseValidForm_loop.induct)
  case (1 env form i flds)
  show ?case
  proof (cases "i < length flds")
    case False
    then show ?thesis by (simp add: loop_done)
  next
    case True
    obtain r fld where b: "bind_field env form (flds ! i) = (r, fld)"
      by (cases "bind_field env form (flds ! i)")
    show ?thesis
    proof (cases r)
      case (Some e)
      with True b "1.prems" show ?thesis
        by (cases "k = i") (simp_all add: loop_err)
    next
      case None
      have step: "parseValidForm_loop env form i flds =
          parseValidForm_loop env form (Suc i) (flds[i := fld])"
        using True b None by (simp add: loop_next)
      show ?thesis
      proof (cases "k = i")
        case True
        with \<open>i < length flds\<close> b step loop_below [of i "Suc i" env form "flds[i := fld]"]
        show ?thesis by simp
      next
        case False
        with "1.IH" [of None fld] \<open>i < length flds\<close> b None step "1.prems"
        show ?thesis by simp
      qed
    qed
  qed
qed

subsection \<open>Unfolding on concrete inputs\<close>

lemmas strconv_defs =
  ParseInt_def ParseUint_def ParseBool_def is_digit_def digit_val_def cutoff10_def maxUint64_def

lemma shift_for_0: "a < 2 ^ p \<Longrightarrow> shift_for p a = 0"
  by (subst shift_for.simps) simp

lemma shift_for_Suc:
  "2 ^ (p + s) \<le> a \<Longrightarrow> a < 2 ^ (p + Suc s) \<Longrightarrow> shift_for p a = Suc s"
proof (induction s arbitrary: a)
  case 0
  then have "\<not> a < 2 ^ p" and "a div 2 < 2 ^ p" by simp_all
  then show ?case
    by (subst shift_for.simps) (simp add: shift_for_0)
next
  case (Suc s)
  have "(2::nat) ^ p \<le> 2 ^ (p + Suc s)" by (rule power_increasing) simp_all
  with Suc.prems have n: "\<not> a < 2 ^ p" by simp
  from Suc.prems have "2 ^ (p + s) \<le> a div 2" and "a div 2 < 2 ^ (p + Suc s)"
    by simp_all
  then have "shift_for p (a div 2) = Suc s" by (rule Suc.IH)
  with n show ?case
    by (subst shift_for.simps) simp
qed

lemma round_half_even_small: "\<bar>x\<bar> < 2 ^ p \<Longrightarrow> round_half_even p x = x"
proof -
  assume "\<bar>x\<bar> < 2 ^ p"
  then have "nat \<bar>x\<bar> < 2 ^ p"
    by (simp add: nat_less_iff)
  then have "shift_for p (nat \<bar>x\<bar>) = 0" by (rule shift_for_0)
  then show ?thesis
    by (simp add: round_half_even_def Let_def mult_sgn_abs)
qed

lemma round_half_even_shift:
  assumes "shift_for p (nat \<bar>x\<bar>) = s"
  shows "round_half_even p x =
     sgn x * int ((if 2 * (nat \<bar>x\<bar> mod 2 ^ s) > 2 ^ s \<or>
                     (2 * (nat \<bar>x\<bar> mod 2 ^ s) = 2 ^ s \<and> odd (nat \<bar>x\<bar> div 2 ^ s))
                  then nat \<bar>x\<bar> div 2 ^ s + 1 else nat \<bar>x\<bar> div 2 ^ s) * 2 ^ s)"
  unfolding round_half_even_def Let_def assms ..

lemma sample_rounding:
  "round_half_even 24 16777217 = 16777216"
  "round_half_even 53 1152921573326323713 = 1152921573326323712"
  "round_half_even 24 1152921573326323713 = 1152921642045800448"
  "round_half_even 24 1152921573326323712 = 1152921504606846976"
proof -
  have s1: "shift_for 24 (nat \<bar>16777217\<bar>) = 1"
    using shift_for_Suc [of 24 0 16777217] by simp
  have s2: "shift_for 53 (nat \<bar>1152921573326323713\<bar>) = 8"
    using shift_for_Suc [of 53 7 1152921573326323713] by simp
  have s3: "shift_for 24 (nat \<bar>1152921573326323713\<bar>) = 37"
    using shift_for_Suc [of 24 36 1152921573326323713] by simp
  have s4: "shift_for 24 (nat \<bar>1152921573326323712\<bar>) = 37"
    using shift_for_Suc [of 24 36 1152921573326323712] by simp
  show "round_half_even 24 16777217 = 16777216"
    by (simp add: round_half_even_shift [OF s1])
  show "round_half_even 53 1152921573326323713 = 1152921573326323712"
    by (simp add: round_half_even_shift [OF s2])
  show "round_half_even 24 1152921573326323713 = 1152921642045800448"
    by (simp add: round_half_even_shift [OF s3])
  show "round_half_even 24 1152921573326323712 = 1152921504606846976"
    by (simp add: round_half_even_shift [OF s4])
qed

lemmas sample_defs =
  sample_env_def sample_Compile_def sample_MatchString_def sample_ParseFloat_def
  sample_struct_def sample_field_def sample_form_def round_half_even_small

lemmas field_defs =
  field_valid_def form_value_def valid_def Tag_Get_def Values_Get_def
  inputTagName_def validTagName_def validMsgName_def errors_New_def

lemmas kind_defs = is_int_kind_def is_uint_kind_def is_float_kind_def

lemmas bind_defs = bind_field_eq scan_def SetString_def SetBool_def SetInt_def SetUint_def
  SetFloat_def int_conv_def uint_conv_def

lemma parseValidForm_struct:
  "parseValidForm env (PtrToStruct flds) form =
     Return (fst (parseValidForm_loop env form 0 flds),
             PtrToStruct (snd (parseValidForm_loop env form 0 flds)))"
  by (simp add: parseValidForm_def split_beta)

subsection \<open>Successful binding\<close>

text \<open>
  Claim C1, as stated: when every field's form value parses in the field's type and
  matches its pattern, \<open>parseValidForm\<close> returns \<open>nil\<close> and each field equals the
  parsed value, \<open>strconv.ParseFloat\<close> of it for a float field. It fails on a
  \<open>float32\<close> field: \<open>scan\<close> parses at 64 bits and \<open>SetFloat\<close> converts the result to
  \<open>float32\<close>. For the value \<open>16777217\<close> the field holds 16777216, not the 16777217
  that \<open>ParseFloat\<close> returned. For the value \<open>1152921573326323713\<close> the field holds
  \<open>2 ^ 60\<close>, which is neither what \<open>ParseFloat\<close> returns for it at 64 bits nor what
  it returns at 32 bits. It also fails on a field that is not settable, which keeps
  its contents whatever the form holds.
\<close>

theorem parsed_value_counterexample:
  "field_valid sample_env [''w'' \<mapsto> [''16777217'']]
       (sample_field ''w'' [] [] True reflect_Float32 (VFloat 0)) = None \<and>
   ParseFloat sample_env ''16777217'' 64 = Inr 16777217 \<and>
   parseValidForm sample_env
       (PtrToStruct [sample_field ''w'' [] [] True reflect_Float32 (VFloat 0)])
       [''w'' \<mapsto> [''16777217'']] =
     Return (None, PtrToStruct [sample_field ''w'' [] [] True reflect_Float32 (VFloat 16777216)]) \<and>
   ParseFloat sample_env ''1152921573326323713'' 64 = Inr 1152921573326323712 \<and>
   ParseFloat sample_env ''1152921573326323713'' 32 = Inr 1152921642045800448 \<and>
   parseValidForm sample_env
       (PtrToStruct [sample_field ''w'' [] [] True reflect_Float32 (VFloat 0)])
       [''w'' \<mapsto> [''1152921573326323713'']] =
     Return (None,
       PtrToStruct [sample_field ''w'' [] [] True reflect_Float32 (VFloat 1152921504606846976)]) \<and>
   parsed_value sample_env reflect_String ''x'' = Some (VString ''x'') \<and>
   parseValidForm sample_env
       (PtrToStruct [sample_field ''note'' [] [] False reflect_String (VString ''keep'')])
       [''note'' \<mapsto> [''x'']] =
     Return (None, PtrToStruct [sample_field ''note'' [] [] False reflect_String (VString ''keep'')])"
proof (intro conjI)
  let ?w = "sample_field ''w'' [] [] True reflect_Float32 (VFloat 0)"
  let ?n = "sample_field ''note'' [] [] False reflect_String (VString ''keep'')"
  show "field_valid sample_env [''w'' \<mapsto> [''16777217'']] ?w = None"
    by (simp add: sample_field_def field_defs)
  show p1: "ParseFloat sample_env ''16777217'' 64 = Inr 16777217"
    by (simp add: sample_defs strconv_defs)
  have "bind_field sample_env [''w'' \<mapsto> [''16777217'']] ?w =
      (None, sample_field ''w'' [] [] True reflect_Float32 (VFloat 16777216))"
    using p1 by (simp add: sample_field_def field_defs bind_defs kind_defs sample_env_def
        sample_rounding)
  then have "parseValidForm_loop sample_env [''w'' \<mapsto> [''16777217'']] 0 [?w] =
      (None, [sample_field ''w'' [] [] True reflect_Float32 (VFloat 16777216)])"
    by (simp add: loop_next loop_done)
  then show "parseValidForm sample_env (PtrToStruct [?w]) [''w'' \<mapsto> [''16777217'']] =
     Return (None, PtrToStruct [sample_field ''w'' [] [] True reflect_Float32 (VFloat 16777216)])"
    by (simp add: parseValidForm_struct)
  show p2: "ParseFloat sample_env ''1152921573326323713'' 64 = Inr 1152921573326323712"
    by (simp add: sample_env_def sample_ParseFloat_def strconv_defs sample_rounding)
  show "ParseFloat sample_env ''1152921573326323713'' 32 = Inr 1152921642045800448"
    by (simp add: sample_env_def sample_ParseFloat_def strconv_defs sample_rounding)
  have "bind_field sample_env [''w'' \<mapsto> [''1152921573326323713'']] ?w =
      (None, sample_field ''w'' [] [] True reflect_Float32 (VFloat 1152921504606846976))"
    using p2 by (simp add: sample_field_def field_defs bind_defs kind_defs sample_env_def
        sample_rounding)
  then have "parseValidForm_loop sample_env [''w'' \<mapsto> [''1152921573326323713'']] 0 [?w] =
      (None, [sample_field ''w'' [] [] True reflect_Float32 (VFloat 1152921504606846976)])"
    by (simp add: loop_next loop_done)
  then show "parseValidForm sample_env (PtrToStruct [?w]) [''w'' \<mapsto> [''1152921573326323713'']] =
     Return (None,
       PtrToStruct [sample_field ''w'' [] [] True reflect_Float32 (VFloat 1152921504606846976)])"
    by (simp add: parseValidForm_struct)
  show "parsed_value sample_env reflect_String ''x'' = Some (VString ''x'')"
    by (simp add: parsed_value_def)
  have "bind_field sample_env [''note'' \<mapsto> [''x'']] ?n = (None, ?n)"
    by (simp add: sample_field_def field_defs bind_defs)
  then have "parseValidForm_loop sample_env [''note'' \<mapsto> [''x'']] 0 [?n] = (None, [?n])"
    by (simp add: loop_next loop_done)
  then show "parseValidForm sample_env (PtrToStruct [?n]) [''note'' \<mapsto> [''x'']] =
     Return (None, PtrToStruct [?n])"
    by (simp add: parseValidForm_struct)
qed

text \<open>
  Claim C1, amended. Take a pointer to a struct and a form such that, for each field,
  the value under the field's \<open>form\<close> tag name passes the field's validation (it
  matches the \<open>valid\<close> pattern when one is declared) and, for each settable field,
  parses: as a bool, as a base 10 integer of the width of the field, as a floating
  point number of 64 bits, or as it is for a string field; the settable fields then
  have scalar kinds, since nothing parses in any other kind. Then \<open>parseValidForm\<close>
  returns \<open>nil\<close>, and afterwards each settable field holds: the raw string, or the
  result of \<open>ParseBool\<close>, \<open>ParseInt\<close> or \<open>ParseUint\<close>, or, for a float field, the result
  of \<open>ParseFloat\<close> at 64 bits converted to the type of the field (\<open>float32(f)\<close> for a
  \<open>float32\<close> field). The fields that are not settable are as they were, and nothing
  else of the struct has changed.
\<close>

theorem bound_fields_equal_parsed_values:
  assumes v: "list_all (\<lambda>fld. field_valid env form fld = None) flds"
    and p: "list_all (\<lambda>fld. CanSet fld \<longrightarrow>
              parsed_value env (kind fld) (form_value form fld) \<noteq> None) flds"
  shows "\<exists>flds'. parseValidForm env (PtrToStruct flds) form = Return (None, PtrToStruct flds') \<and>
     list_all2 (\<lambda>fld fld'.
        if CanSet fld
        then parsed_value env (kind fld) (form_value form fld) = Some (val fld') \<and>
             fld' = fld\<lparr>val := val fld'\<rparr>
        else fld' = fld) flds flds'"
proof -
  define res where "res = parseValidForm_loop env form 0 flds"
  have each: "fst (bind_field env form (flds ! k)) = None \<and>
      (if CanSet (flds ! k)
       then parsed_value env (kind (flds ! k)) (form_value form (flds ! k)) =
              Some (val (snd (bind_field env form (flds ! k)))) \<and>
            snd (bind_field env form (flds ! k)) =
              (flds ! k)\<lparr>val := val (snd (bind_field env form (flds ! k)))\<rparr>
       else snd (bind_field env form (flds ! k)) = flds ! k)" if k: "k < length flds" for k
  proof (cases "CanSet (flds ! k)")
    case False
    with v k show ?thesis
      by (simp add: list_all_length bind_field_eq scan_unsettable)
  next
    case True
    with p k obtain x where
      x: "parsed_value env (kind (flds ! k)) (form_value form (flds ! k)) = Some x"
      by (auto simp: list_all_length)
    from scan_parsed [OF True x] v k x True show ?thesis
      by (simp add: list_all_length bind_field_eq)
  qed
  then have ok: "\<forall>k. 0 \<le> k \<and> k < length flds \<longrightarrow> fst (bind_field env form (flds ! k)) = None"
    by simp
  from loop_success [OF ok] have
    e: "fst res = None" and
    n: "\<And>k. k < length flds \<Longrightarrow> snd res ! k = snd (bind_field env form (flds ! k))"
    by (simp_all add: res_def)
  have l: "length (snd res) = length flds" by (simp add: res_def loop_length)
  have "parseValidForm env (PtrToStruct flds) form = Return (None, PtrToStruct (snd res))"
    using e by (simp add: parseValidForm_def res_def [symmetric] split_beta)
  moreover have "list_all2 (\<lambda>fld fld'.
        if CanSet fld
        then parsed_value env (kind fld) (form_value form fld) = Some (val fld') \<and>
             fld' = fld\<lparr>val := val fld'\<rparr>
        else fld' = fld) flds (snd res)"
    unfolding list_all2_conv_all_nth using l each n by simp
  ultimately show ?thesis by blast
qed

theorem bound_fields_equal_parsed_values_witness:
  "list_all (\<lambda>fld. field_valid sample_env sample_form fld = None) sample_struct \<and>
   list_all (\<lambda>fld. CanSet fld \<longrightarrow>
       parsed_value sample_env (kind fld) (form_value sample_form fld) \<noteq> None) sample_struct \<and>
   (\<exists>flds'. parseValidForm sample_env (PtrToStruct sample_struct) sample_form =
        Return (None, PtrToStruct flds') \<and>
      map val flds' =
        [VString ''42'', VInt (- 7), VBool True, VUint 8080, VFloat 3, VString ''keep'']) \<and>
   parsed_value sample_env reflect_Float32 ''16777217'' = Some (VFloat 16777216) \<and>
   (\<exists>flds'. parseValidForm sample_env
        (PtrToStruct [sample_field ''w'' [] [] True reflect_Float32 (VFloat 0)])
        [''w'' \<mapsto> [''16777217'']] =
        Return (None, PtrToStruct flds') \<and>
      map val flds' = [VFloat 16777216])"
proof -
  have h1: "list_all (\<lambda>fld. field_valid sample_env sample_form fld = None) sample_struct"
    by (simp add: sample_defs field_defs is_digit_def)
  have pv: "map (\<lambda>fld. parsed_value sample_env (kind fld) (form_value sample_form fld)) sample_struct =
     [Some (VString ''42''), Some (VInt (- 7)), Some (VBool True), Some (VUint 8080),
      Some (VFloat 3), Some (VString ''x'')]"
    by (simp add: sample_defs field_defs parsed_value_def kind_defs strconv_defs)
  have h2: "list_all (\<lambda>fld. CanSet fld \<longrightarrow>
       parsed_value sample_env (kind fld) (form_value sample_form fld) \<noteq> None) sample_struct"
    using pv by (simp add: sample_struct_def sample_field_def)
  from bound_fields_equal_parsed_values [OF h1 h2] obtain flds' where
    r: "parseValidForm sample_env (PtrToStruct sample_struct) sample_form =
        Return (None, PtrToStruct flds')" and
    a: "list_all2 (\<lambda>fld fld'.
        if CanSet fld
        then parsed_value sample_env (kind fld) (form_value sample_form fld) = Some (val fld') \<and>
             fld' = fld\<lparr>val := val fld'\<rparr>
        else fld' = fld) sample_struct flds'"
    by blast
  from a pv have m: "map val flds' =
        [VString ''42'', VInt (- 7), VBool True, VUint 8080, VFloat 3, VString ''keep'']"
    by (auto simp: sample_struct_def sample_field_def list_all2_Cons1)
  from r m have e1: "\<exists>flds'. parseValidForm sample_env (PtrToStruct sample_struct) sample_form =
        Return (None, PtrToStruct flds') \<and>
      map val flds' =
        [VString ''42'', VInt (- 7), VBool True, VUint 8080, VFloat 3, VString ''keep'']"
    by (intro exI [of _ flds'] conjI)
  let ?w = "sample_field ''w'' [] [] True reflect_Float32 (VFloat 0)"
  let ?form = "[''w'' \<mapsto> [''16777217'']] :: Values"
  have pw: "parsed_value sample_env reflect_Float32 ''16777217'' = Some (VFloat 16777216)"
    by (simp add: sample_defs parsed_value_def kind_defs strconv_defs sample_rounding)
  have g1: "list_all (\<lambda>fld. field_valid sample_env ?form fld = None) [?w]"
    by (simp add: sample_field_def field_defs)
  have fv: "form_value ?form ?w = ''16777217''" "kind ?w = reflect_Float32" "CanSet ?w"
    by (simp_all add: sample_field_def field_defs)
  have g2: "list_all (\<lambda>fld. CanSet fld \<longrightarrow>
       parsed_value sample_env (kind fld) (form_value ?form fld) \<noteq> None) [?w]"
    using pw fv by simp
  from bound_fields_equal_parsed_values [OF g1 g2] obtain flds2 where
    r2: "parseValidForm sample_env (PtrToStruct [?w]) ?form = Return (None, PtrToStruct flds2)" and
    a2: "list_all2 (\<lambda>fld fld'.
        if CanSet fld
        then parsed_value sample_env (kind fld) (form_value ?form fld) = Some (val fld') \<and>
             fld' = fld\<lparr>val := val fld'\<rparr>
        else fld' = fld) [?w] flds2"
    by blast
  from a2 pw fv have m2: "map val flds2 = [VFloat 16777216]"
    by (auto simp: list_all2_Cons1)
  from r2 m2 have e2: "\<exists>flds'. parseValidForm sample_env (PtrToStruct [?w]) ?form =
        Return (None, PtrToStruct flds') \<and> map val flds' = [VFloat 16777216]"
    by (intro exI [of _ flds2] conjI)
  from h1 h2 e1 pw e2 show ?thesis by (intro conjI)
qed

subsection \<open>The first error\<close>

lemma loop_fail_list:
  assumes r: "reaches env form flds j"
    and e: "fst (bind_field env form (flds ! j)) = Some err"
  shows "parseValidForm_loop env form 0 flds =
     (Some err, map (\<lambda>fld. snd (bind_field env form fld)) (take j flds) @ drop j flds)"
proof -
  let ?res = "parseValidForm_loop env form 0 flds"
  let ?b = "\<lambda>fld. snd (bind_field env form fld)"
  from r have j: "j < length flds"
    and pre: "\<forall>k. 0 \<le> k \<and> k < j \<longrightarrow> fst (bind_field env form (flds ! k)) = None"
    by (simp_all add: reaches_iff)
  from loop_fail [OF _ j pre e] have
    f: "fst ?res = Some err" and
    lo: "\<And>k. k \<le> j \<Longrightarrow> snd ?res ! k = ?b (flds ! k)" and
    hi: "\<And>k. j < k \<Longrightarrow> snd ?res ! k = flds ! k"
    by simp_all
  have "snd ?res = map ?b (take j flds) @ drop j flds"
  proof (rule nth_equalityI)
    show "length (snd ?res) = length (map ?b (take j flds) @ drop j flds)"
      using j by (simp add: loop_length)
  next
    fix k assume "k < length (snd ?res)"
    then have k: "k < length flds" by (simp add: loop_length)
    consider "k < j" | "k = j" | "j < k" by linarith
    then show "snd ?res ! k = (map ?b (take j flds) @ drop j flds) ! k"
    proof cases
      case 1
      with j lo [of k] show ?thesis by (simp add: nth_append)
    next
      case 2
      with j lo [of j] bind_field_error_unchanged [OF e] show ?thesis
        by (simp add: nth_append)
    next
      case 3
      with j k hi [of k] show ?thesis by (simp add: nth_append)
    qed
  qed
  with f show ?thesis by (simp add: prod_eq_iff)
qed




subsection \<open>Coercion errors\<close>

lemma scan_strconv_error:
  assumes "CanSet v" and "strconv_error env (kind v) s = Some err"
  shows "scan env v s = (Some err, v)"
proof -
  consider (int) "is_int_kind (kind v)" | (uint) "is_uint_kind (kind v)"
    | (float) "is_float_kind (kind v)"
    using assms(2) by (auto simp: strconv_error_def split: if_splits)
  then show ?thesis
  proof cases
    case int
    with assms kinds_disjoint(1) [OF int] show ?thesis
      by (auto simp: scan_def strconv_error_def split: sum.splits)
  next
    case uint
    with assms kinds_disjoint(2) [OF uint] show ?thesis
      by (auto simp: scan_def strconv_error_def split: sum.splits)
  next
    case float
    with assms kinds_disjoint(3) [OF float] show ?thesis
      by (auto simp: scan_def strconv_error_def split: sum.splits)
  qed
qed

text \<open>
  Claim C3, as stated: for every settable numeric field that passes its validation, if
  its form value is not parseable, \<open>parseValidForm\<close> returns exactly the error of the
  strconv function of the field. It fails on the second of two fields that both fail
  to parse: the \<open>uint16\<close> field \<open>b\<close> has no validation and the value \<open>-1\<close>, on which
  \<open>ParseUint\<close> fails, but the error returned is the one of \<open>ParseInt\<close> on the value
  of the field \<open>a\<close> before it.
\<close>

theorem numeric_parse_error_counterexample:
  "CanSet (sample_field ''b'' [] [] True reflect_Uint16 (VUint 0)) \<and>
   field_valid sample_env [''a'' \<mapsto> [''abc''], ''b'' \<mapsto> [''-1'']]
       (sample_field ''b'' [] [] True reflect_Uint16 (VUint 0)) = None \<and>
   strconv_error sample_env reflect_Uint16
       (form_value [''a'' \<mapsto> [''abc''], ''b'' \<mapsto> [''-1'']]
          (sample_field ''b'' [] [] True reflect_Uint16 (VUint 0))) =
     Some (NumError ''ParseUint'' ''-1'' ErrSyntax) \<and>
   parseValidForm sample_env
       (PtrToStruct [sample_field ''a'' [] [] True reflect_Int (VInt 0),
                     sample_field ''b'' [] [] True reflect_Uint16 (VUint 0)])
       [''a'' \<mapsto> [''abc''], ''b'' \<mapsto> [''-1'']] =
     Return (Some (NumError ''ParseInt'' ''abc'' ErrSyntax),
       PtrToStruct [sample_field ''a'' [] [] True reflect_Int (VInt 0),
                    sample_field ''b'' [] [] True reflect_Uint16 (VUint 0)]) \<and>
   NumError ''ParseInt'' ''abc'' ErrSyntax \<noteq> NumError ''ParseUint'' ''-1'' ErrSyntax"
proof (intro conjI)
  let ?a = "sample_field ''a'' [] [] True reflect_Int (VInt 0)"
  let ?b = "sample_field ''b'' [] [] True reflect_Uint16 (VUint 0)"
  let ?form = "[''a'' \<mapsto> [''abc''], ''b'' \<mapsto> [''-1'']] :: Values"
  show "CanSet ?b" by (simp add: sample_field_def)
  show "field_valid sample_env ?form ?b = None"
    by (simp add: sample_field_def field_defs)
  show "strconv_error sample_env reflect_Uint16 (form_value ?form ?b) =
     Some (NumError ''ParseUint'' ''-1'' ErrSyntax)"
    by (simp add: sample_field_def field_defs strconv_error_def kind_defs strconv_defs)
  have "bind_field sample_env ?form ?a = (Some (NumError ''ParseInt'' ''abc'' ErrSyntax), ?a)"
    by (simp add: sample_field_def field_defs bind_defs kind_defs strconv_defs)
  then have "parseValidForm_loop sample_env ?form 0 [?a, ?b] =
      (Some (NumError ''ParseInt'' ''abc'' ErrSyntax), [?a, ?b])"
    by (simp add: loop_err)
  then show "parseValidForm sample_env (PtrToStruct [?a, ?b]) ?form =
     Return (Some (NumError ''ParseInt'' ''abc'' ErrSyntax), PtrToStruct [?a, ?b])"
    by (simp add: parseValidForm_struct)
  show "NumError ''ParseInt'' ''abc'' ErrSyntax \<noteq> NumError ''ParseUint'' ''-1'' ErrSyntax"
    by simp
qed

text \<open>
  Claim C3, amended. Take a settable field of a signed integer, unsigned integer or
  floating point kind that the loop reaches (every field before it passed validation
  and coercion) and whose form value passes the validation (or has none). If the
  strconv function of that family (\<open>ParseInt\<close>, \<open>ParseUint\<close>, \<open>ParseFloat\<close>, as \<open>scan\<close>
  calls it) does not parse the value, then \<open>scan\<close> returns exactly the error of that
  function, and \<open>parseValidForm\<close> returns exactly that error.
\<close>

theorem numeric_parse_error_returned:
  assumes r: "reaches env form flds j"
    and s: "CanSet (flds ! j)"
    and v: "field_valid env form (flds ! j) = None"
    and e: "strconv_error env (kind (flds ! j)) (form_value form (flds ! j)) = Some err"
  shows "scan env (flds ! j) (form_value form (flds ! j)) = (Some err, flds ! j) \<and>
     parseValidForm env (PtrToStruct flds) form =
       Return (Some err,
         PtrToStruct (map (\<lambda>fld. snd (bind_field env form fld)) (take j flds) @ drop j flds))"
proof -
  have sc: "scan env (flds ! j) (form_value form (flds ! j)) = (Some err, flds ! j)"
    using s e by (rule scan_strconv_error)
  with v have "fst (bind_field env form (flds ! j)) = Some err"
    by (simp add: bind_field_eq)
  from loop_fail_list [OF r this] sc show ?thesis
    by (simp add: parseValidForm_struct)
qed

theorem numeric_parse_error_returned_witness:
  "reaches sample_env (sample_form(''port'' \<mapsto> [''-1''])) sample_struct 3 \<and>
   CanSet (sample_struct ! 3) \<and>
   field_valid sample_env (sample_form(''port'' \<mapsto> [''-1''])) (sample_struct ! 3) = None \<and>
   strconv_error sample_env (kind (sample_struct ! 3))
       (form_value (sample_form(''port'' \<mapsto> [''-1''])) (sample_struct ! 3)) =
     Some (NumError ''ParseUint'' ''-1'' ErrSyntax) \<and>
   parseValidForm sample_env (PtrToStruct sample_struct) (sample_form(''port'' \<mapsto> [''-1''])) =
     Return (Some (NumError ''ParseUint'' ''-1'' ErrSyntax),
       PtrToStruct
         ([(sample_struct ! 0)\<lparr>val := VString ''42''\<rparr>, (sample_struct ! 1)\<lparr>val := VInt (- 7)\<rparr>,
           (sample_struct ! 2)\<lparr>val := VBool True\<rparr>] @ drop 3 sample_struct))"
proof -
  let ?form = "sample_form(''port'' \<mapsto> [''-1''])"
  have b: "map (bind_field sample_env ?form) (take 3 sample_struct) =
      [(None, (sample_struct ! 0)\<lparr>val := VString ''42''\<rparr>),
       (None, (sample_struct ! 1)\<lparr>val := VInt (- 7)\<rparr>),
       (None, (sample_struct ! 2)\<lparr>val := VBool True\<rparr>)]"
    by (simp add: sample_defs field_defs bind_defs kind_defs strconv_defs)
  have r: "reaches sample_env ?form sample_struct 3"
    using b by (simp add: reaches_def sample_struct_def)
  have s: "CanSet (sample_struct ! 3)"
    by (simp add: sample_defs)
  have v: "field_valid sample_env ?form (sample_struct ! 3) = None"
    by (simp add: sample_defs field_defs)
  have e: "strconv_error sample_env (kind (sample_struct ! 3)) (form_value ?form (sample_struct ! 3)) =
     Some (NumError ''ParseUint'' ''-1'' ErrSyntax)"
    by (simp add: sample_defs field_defs strconv_error_def kind_defs strconv_defs)
  have m: "map (\<lambda>fld. snd (bind_field sample_env ?form fld)) (take 3 sample_struct) =
     [(sample_struct ! 0)\<lparr>val := VString ''42''\<rparr>, (sample_struct ! 1)\<lparr>val := VInt (- 7)\<rparr>,
      (sample_struct ! 2)\<lparr>val := VBool True\<rparr>]"
    using arg_cong [OF b, of "map snd"] by (simp add: comp_def)
  from numeric_parse_error_returned [OF r s v e] r s v e m show ?thesis
    by simp
qed

subsection \<open>Narrow integer fields\<close>

lemma int_conv_mod: "0 < w \<Longrightarrow> int_conv w x mod 2 ^ w = x mod 2 ^ w"
proof -
  assume "0 < w"
  have "((x + 2 ^ (w - 1)) mod 2 ^ w - 2 ^ (w - 1)) mod 2 ^ w = (x + 2 ^ (w - 1) - 2 ^ (w - 1)) mod 2 ^ w"
    by (rule mod_diff_left_eq)
  then show ?thesis by (simp add: int_conv_def)
qed

lemma int_conv_range:
  assumes "0 < w"
  shows "- (2 ^ (w - 1)) \<le> int_conv w x \<and> int_conv w x < 2 ^ (w - 1)"
proof -
  have p: "(2::int) ^ w = 2 * 2 ^ (w - 1)"
    using assms by (cases w) simp_all
  have "0 \<le> (x + 2 ^ (w - 1)) mod 2 ^ w" and "(x + 2 ^ (w - 1)) mod 2 ^ w < 2 ^ w"
    by simp_all
  with p show ?thesis by (simp add: int_conv_def)
qed

text \<open>
  Claim C9. An integer form value is parsed at 64 bits and stored with \<open>SetInt\<close> or
  \<open>SetUint\<close>. For a settable field of an integer kind of \<open>w\<close> bits, a value that
  parses at 64 bits is stored without an error, whether or not it is in the range of
  the field: what the field holds is the value modulo \<open>2 ^ w\<close>, read in two's
  complement for a signed kind.
\<close>

theorem narrow_integers_truncated:
  assumes "CanSet v"
  shows "(is_int_kind (kind v) \<and> ParseInt s 64 = Inr i \<longrightarrow>
       scan env v s = (None, v\<lparr>val := VInt (int_conv (kind_bits (arch env) (kind v)) i)\<rparr>) \<and>
       int_conv (kind_bits (arch env) (kind v)) i mod 2 ^ kind_bits (arch env) (kind v) =
         i mod 2 ^ kind_bits (arch env) (kind v) \<and>
       - (2 ^ (kind_bits (arch env) (kind v) - 1)) \<le> int_conv (kind_bits (arch env) (kind v)) i \<and>
       int_conv (kind_bits (arch env) (kind v)) i < 2 ^ (kind_bits (arch env) (kind v) - 1)) \<and>
     (is_uint_kind (kind v) \<and> ParseUint s 64 = Inr x \<longrightarrow>
       scan env v s = (None, v\<lparr>val := VUint (x mod 2 ^ kind_bits (arch env) (kind v))\<rparr>))"
proof (intro conjI impI)
  assume a: "is_int_kind (kind v) \<and> ParseInt s 64 = Inr i"
  with assms kinds_disjoint(1) [of "kind v"]
  show "scan env v s = (None, v\<lparr>val := VInt (int_conv (kind_bits (arch env) (kind v)) i)\<rparr>)"
    by (simp add: scan_def SetInt_def)
  from a have w: "0 < kind_bits (arch env) (kind v)" by (simp add: kind_bits_int)
  from w show "int_conv (kind_bits (arch env) (kind v)) i mod 2 ^ kind_bits (arch env) (kind v) =
         i mod 2 ^ kind_bits (arch env) (kind v)"
    by (rule int_conv_mod)
  from int_conv_range [OF w]
  show "- (2 ^ (kind_bits (arch env) (kind v) - 1)) \<le> int_conv (kind_bits (arch env) (kind v)) i"
    and "int_conv (kind_bits (arch env) (kind v)) i < 2 ^ (kind_bits (arch env) (kind v) - 1)"
    by simp_all
next
  assume a: "is_uint_kind (kind v) \<and> ParseUint s 64 = Inr x"
  with assms kinds_disjoint(2) [of "kind v"]
  show "scan env v s = (None, v\<lparr>val := VUint (x mod 2 ^ kind_bits (arch env) (kind v))\<rparr>)"
    by (simp add: scan_def SetUint_def uint_conv_def)
qed

theorem narrow_integers_truncated_witness:
  "CanSet (sample_struct ! 1) \<and> is_int_kind (kind (sample_struct ! 1)) \<and>
   CanSet (sample_struct ! 3) \<and> is_uint_kind (kind (sample_struct ! 3)) \<and>
   ParseInt ''300'' 64 = Inr 300 \<and>
   ParseInt ''300'' 8 = Inl (NumError ''ParseInt'' ''300'' ErrRange) \<and>
   scan sample_env (sample_struct ! 1) ''300'' = (None, (sample_struct ! 1)\<lparr>val := VInt 44\<rparr>) \<and>
   ParseUint ''70000'' 64 = Inr 70000 \<and>
   ParseUint ''70000'' 16 = Inl (NumError ''ParseUint'' ''70000'' ErrRange) \<and>
   scan sample_env (sample_struct ! 3) ''70000'' = (None, (sample_struct ! 3)\<lparr>val := VUint 4464\<rparr>)"
proof -
  have c: "CanSet (sample_struct ! 1)" "CanSet (sample_struct ! 3)"
    by (simp_all add: sample_defs)
  have k: "is_int_kind (kind (sample_struct ! 1))" "is_uint_kind (kind (sample_struct ! 3))"
    by (simp_all add: sample_defs kind_defs)
  have p: "ParseInt ''300'' 64 = Inr 300" "ParseUint ''70000'' 64 = Inr 70000"
    by (simp_all add: strconv_defs)
  have q: "ParseInt ''300'' 8 = Inl (NumError ''ParseInt'' ''300'' ErrRange)"
     "ParseUint ''70000'' 16 = Inl (NumError ''ParseUint'' ''70000'' ErrRange)"
    by (simp_all add: strconv_defs)
  have w: "kind_bits (arch sample_env) (kind (sample_struct ! 1)) = 8"
     "kind_bits (arch sample_env) (kind (sample_struct ! 3)) = 16"
    by (simp_all add: sample_defs)
  from narrow_integers_truncated [OF c(1), where s = "''300''" and i = 300 and env = sample_env]
       narrow_integers_truncated [OF c(2), where s = "''70000''" and x = 70000 and env = sample_env]
       c k p q w
  show ?thesis by (simp add: int_conv_def)
qed

subsection \<open>Validation and fields that are not settable\<close>

lemma field_valid_no_match:
  assumes "Tag_Get (Tag fld) validTagName \<noteq> []"
    and "regexp_Compile env (Tag_Get (Tag fld) validTagName) = Inr rxp"
    and "\<not> MatchString env rxp (form_value form fld)"
  shows "field_valid env form fld = Some (errors_New (Tag_Get (Tag fld) validMsgName))"
  using assms by (simp add: field_valid_def valid_def)

lemma field_valid_bad_pattern:
  assumes "Tag_Get (Tag fld) validTagName \<noteq> []"
    and "regexp_Compile env (Tag_Get (Tag fld) validTagName) = Inl err"
  shows "field_valid env form fld = Some err"
  using assms by (simp add: field_valid_def valid_def)

lemma bind_field_invalid:
  "field_valid env form fld = Some err \<Longrightarrow> bind_field env form fld = (Some err, fld)"
  by (simp add: bind_field_eq)

text \<open>
  Claim C7. For a field that is not settable, \<open>scan\<close> returns \<open>nil\<close> on every string and
  leaves the field as it is, so no coercion error comes from it, and \<open>parseValidForm\<close>
  never changes it. Its \<open>valid\<close> pattern is applied all the same: when the form value
  does not match the pattern, \<open>parseValidForm\<close> fails, with the field's validation
  message when the loop reaches the field.
\<close>

theorem unsettable_field_validated_not_scanned:
  assumes j: "j < length flds" and u: "\<not> CanSet (flds ! j)"
  shows "scan env (flds ! j) s = (None, flds ! j) \<and>
    (\<exists>r flds'. parseValidForm env (PtrToStruct flds) form = Return (r, PtrToStruct flds') \<and>
       flds' ! j = flds ! j \<and>
       (\<forall>rxp. Tag_Get (Tag (flds ! j)) validTagName \<noteq> [] \<and>
              regexp_Compile env (Tag_Get (Tag (flds ! j)) validTagName) = Inr rxp \<and>
              \<not> MatchString env rxp (form_value form (flds ! j)) \<longrightarrow>
          r \<noteq> None \<and>
          (reaches env form flds j \<longrightarrow>
             r = Some (errors_New (Tag_Get (Tag (flds ! j)) validMsgName)))))"
proof
  show "scan env (flds ! j) s = (None, flds ! j)"
    using u by (rule scan_unsettable)
next
  let ?res = "parseValidForm_loop env form 0 flds"
  let ?msg = "Tag_Get (Tag (flds ! j)) validMsgName"
  have same: "snd ?res ! j = flds ! j"
    using loop_nth_cases [OF j, of env form 0] bind_field_unsettable [OF u, of env form]
    by auto
  have fails: "fst ?res \<noteq> None \<and> (reaches env form flds j \<longrightarrow> fst ?res = Some (errors_New ?msg))"
    if n: "Tag_Get (Tag (flds ! j)) validTagName \<noteq> [] \<and>
           regexp_Compile env (Tag_Get (Tag (flds ! j)) validTagName) = Inr rxp \<and>
           \<not> MatchString env rxp (form_value form (flds ! j))" for rxp
  proof
    from n have "field_valid env form (flds ! j) = Some (errors_New ?msg)"
      by (simp add: field_valid_no_match)
    then have b: "fst (bind_field env form (flds ! j)) = Some (errors_New ?msg)"
      by (simp add: bind_field_invalid)
    show "fst ?res \<noteq> None"
    proof
      assume "fst ?res = None"
      from loop_None_all [OF this _ j] b show False by simp
    qed
    show "reaches env form flds j \<longrightarrow> fst ?res = Some (errors_New ?msg)"
    proof
      assume "reaches env form flds j"
      from loop_fail_list [OF this b] show "fst ?res = Some (errors_New ?msg)" by simp
    qed
  qed
  have "parseValidForm env (PtrToStruct flds) form = Return (fst ?res, PtrToStruct (snd ?res))"
    by (rule parseValidForm_struct)
  with same fails
  show "\<exists>r flds'. parseValidForm env (PtrToStruct flds) form = Return (r, PtrToStruct flds') \<and>
       flds' ! j = flds ! j \<and>
       (\<forall>rxp. Tag_Get (Tag (flds ! j)) validTagName \<noteq> [] \<and>
              regexp_Compile env (Tag_Get (Tag (flds ! j)) validTagName) = Inr rxp \<and>
              \<not> MatchString env rxp (form_value form (flds ! j)) \<longrightarrow>
          r \<noteq> None \<and>
          (reaches env form flds j \<longrightarrow>
             r = Some (errors_New (Tag_Get (Tag (flds ! j)) validMsgName))))"
    by (intro exI [of _ "fst ?res"] exI [of _ "snd ?res"]) blast
qed

theorem unsettable_field_validated_not_scanned_witness:
  "\<not> CanSet (sample_field ''code'' ''^[0-9]+$'' ''code must be digits'' False reflect_Int (VInt 9)) \<and>
   scan sample_env
     (sample_field ''code'' ''^[0-9]+$'' ''code must be digits'' False reflect_Int (VInt 9)) ''abc'' =
     (None, sample_field ''code'' ''^[0-9]+$'' ''code must be digits'' False reflect_Int (VInt 9)) \<and>
   (\<exists>flds'. parseValidForm sample_env
       (PtrToStruct [sample_field ''code'' ''^[0-9]+$'' ''code must be digits'' False reflect_Int (VInt 9)])
       [''code'' \<mapsto> [''abc'']] =
      Return (Some (errorString ''code must be digits''), PtrToStruct flds') \<and>
      flds' ! 0 =
        sample_field ''code'' ''^[0-9]+$'' ''code must be digits'' False reflect_Int (VInt 9))"
proof -
  let ?f = "sample_field ''code'' ''^[0-9]+$'' ''code must be digits'' False reflect_Int (VInt 9)"
  let ?form = "[''code'' \<mapsto> [''abc'']] :: Values"
  have j: "0 < length [?f]" by simp
  have u: "\<not> CanSet ([?f] ! 0)" by (simp add: sample_field_def)
  have t: "Tag_Get (Tag ?f) validTagName = ''^[0-9]+$''"
          "Tag_Get (Tag ?f) validMsgName = ''code must be digits''"
          "form_value ?form ?f = ''abc''"
    by (simp_all add: sample_field_def field_defs)
  have c: "regexp_Compile sample_env ''^[0-9]+$'' = Inr ''^[0-9]+$''"
    by (simp add: sample_defs)
  have m: "\<not> MatchString sample_env ''^[0-9]+$'' ''abc''"
    by (simp add: sample_defs is_digit_def)
  have r: "reaches sample_env ?form [?f] 0"
    by (simp add: reaches_def)
  note th = unsettable_field_validated_not_scanned
    [OF j u, of sample_env "''abc''" ?form, unfolded nth_Cons_0]
  from th have s: "scan sample_env ?f ''abc'' = (None, ?f)" by (rule conjunct1)
  from th obtain r' flds' where
    p: "parseValidForm sample_env (PtrToStruct [?f]) ?form = Return (r', PtrToStruct flds')" and
    k: "flds' ! 0 = ?f" and
    a: "\<forall>rxp. Tag_Get (Tag ?f) validTagName \<noteq> [] \<and>
              regexp_Compile sample_env (Tag_Get (Tag ?f) validTagName) = Inr rxp \<and>
              \<not> MatchString sample_env rxp (form_value ?form ?f) \<longrightarrow>
          r' \<noteq> None \<and>
          (reaches sample_env ?form [?f] 0 \<longrightarrow>
             r' = Some (errors_New (Tag_Get (Tag ?f) validMsgName)))"
    by (elim conjE exE)
  from a [rule_format, of "''^[0-9]+$''"] t c m r
  have "r' = Some (errorString ''code must be digits'')"
    by (simp add: errors_New_def)
  with p k have "\<exists>flds'. parseValidForm sample_env (PtrToStruct [?f]) ?form =
      Return (Some (errorString ''code must be digits''), PtrToStruct flds') \<and> flds' ! 0 = ?f"
    by (intro exI [of _ flds']) simp
  with u s show ?thesis by simp
qed

subsection \<open>Validation errors\<close>

text \<open>
  Claim C2, as stated: for every field whose \<open>valid\<close> tag is not empty, if the tag is an
  invalid pattern or the form value does not match it, \<open>parseValidForm\<close> returns an error
  whose message is the field's \<open>msg\<close> tag. It fails on a field whose pattern \<open>(\<close> does
  not compile: the error returned is the one of \<open>regexp.Compile\<close>, and its message is
  not the \<open>msg\<close> tag. It also fails on the second of two fields that both fail to
  match: the message returned is the one of the first field.
\<close>

theorem validation_message_counterexample:
  "parseValidForm sample_env
       (PtrToStruct [sample_field ''name'' ''('' ''bad name'' True reflect_String (VString [])])
       [''name'' \<mapsto> [''x'']] =
     Return (Some (syntax_Error ''missing closing )'' ''(''),
       PtrToStruct [sample_field ''name'' ''('' ''bad name'' True reflect_String (VString [])]) \<and>
   Error (syntax_Error ''missing closing )'' ''('') \<noteq> ''bad name'' \<and>
   parseValidForm sample_env
       (PtrToStruct [sample_field ''a'' ''^[0-9]+$'' ''first'' True reflect_String (VString []),
                     sample_field ''b'' ''^[0-9]+$'' ''second'' True reflect_String (VString [])])
       [''a'' \<mapsto> [''x''], ''b'' \<mapsto> [''y'']] =
     Return (Some (errorString ''first''),
       PtrToStruct [sample_field ''a'' ''^[0-9]+$'' ''first'' True reflect_String (VString []),
                    sample_field ''b'' ''^[0-9]+$'' ''second'' True reflect_String (VString [])]) \<and>
   \<not> MatchString sample_env ''^[0-9]+$'' ''y'' \<and>
   Error (errorString ''first'') \<noteq> ''second''"
proof (intro conjI)
  let ?f = "sample_field ''name'' ''('' ''bad name'' True reflect_String (VString [])"
  have "bind_field sample_env [''name'' \<mapsto> [''x'']] ?f =
      (Some (syntax_Error ''missing closing )'' ''(''), ?f)"
    by (simp add: sample_defs field_defs bind_defs)
  then have "parseValidForm_loop sample_env [''name'' \<mapsto> [''x'']] 0 [?f] =
      (Some (syntax_Error ''missing closing )'' ''(''), [?f])"
    by (simp add: loop_err)
  then show "parseValidForm sample_env (PtrToStruct [?f]) [''name'' \<mapsto> [''x'']] =
     Return (Some (syntax_Error ''missing closing )'' ''(''), PtrToStruct [?f])"
    by (simp add: parseValidForm_struct)
next
  show "Error (syntax_Error ''missing closing )'' ''('') \<noteq> ''bad name''" by simp
next
  let ?a = "sample_field ''a'' ''^[0-9]+$'' ''first'' True reflect_String (VString [])"
  let ?b = "sample_field ''b'' ''^[0-9]+$'' ''second'' True reflect_String (VString [])"
  let ?form = "[''a'' \<mapsto> [''x''], ''b'' \<mapsto> [''y'']] :: Values"
  have "bind_field sample_env ?form ?a = (Some (errorString ''first''), ?a)"
    by (simp add: sample_defs field_defs bind_defs is_digit_def)
  then have "parseValidForm_loop sample_env ?form 0 [?a, ?b] =
      (Some (errorString ''first''), [?a, ?b])"
    by (simp add: loop_err)
  then show "parseValidForm sample_env (PtrToStruct [?a, ?b]) ?form =
     Return (Some (errorString ''first''), PtrToStruct [?a, ?b])"
    by (simp add: parseValidForm_struct)
next
  show "\<not> MatchString sample_env ''^[0-9]+$'' ''y''"
    by (simp add: sample_defs is_digit_def)
next
  show "Error (errorString ''first'') \<noteq> ''second''" by simp
qed

text \<open>
  Claim C2, amended. For a field with a non-empty \<open>valid\<close> tag that the loop reaches
  (every field before it passed validation and coercion): if the form value does not
  match the pattern, \<open>parseValidForm\<close> returns the error \<open>errors.New(msg)\<close>, whose
  message is the field's \<open>msg\<close> tag; if the tag is not a valid pattern, it returns the
  error of \<open>regexp.Compile\<close>. In both cases the fields before hold what binding gave
  them and the others are as they were.
\<close>

theorem validation_error_of_reached_field:
  assumes r: "reaches env form flds j"
    and n: "Tag_Get (Tag (flds ! j)) validTagName \<noteq> []"
  shows "(\<forall>rxp. regexp_Compile env (Tag_Get (Tag (flds ! j)) validTagName) = Inr rxp \<and>
              \<not> MatchString env rxp (form_value form (flds ! j)) \<longrightarrow>
          parseValidForm env (PtrToStruct flds) form =
            Return (Some (errors_New (Tag_Get (Tag (flds ! j)) validMsgName)),
              PtrToStruct (map (\<lambda>fld. snd (bind_field env form fld)) (take j flds) @ drop j flds)) \<and>
          Error (errors_New (Tag_Get (Tag (flds ! j)) validMsgName)) =
            Tag_Get (Tag (flds ! j)) validMsgName) \<and>
     (\<forall>err. regexp_Compile env (Tag_Get (Tag (flds ! j)) validTagName) = Inl err \<longrightarrow>
          parseValidForm env (PtrToStruct flds) form =
            Return (Some err,
              PtrToStruct (map (\<lambda>fld. snd (bind_field env form fld)) (take j flds) @ drop j flds)))"
proof (intro conjI allI impI)
  fix rxp
  assume a: "regexp_Compile env (Tag_Get (Tag (flds ! j)) validTagName) = Inr rxp \<and>
              \<not> MatchString env rxp (form_value form (flds ! j))"
  with n have "field_valid env form (flds ! j) =
      Some (errors_New (Tag_Get (Tag (flds ! j)) validMsgName))"
    by (simp add: field_valid_no_match)
  then have "fst (bind_field env form (flds ! j)) =
      Some (errors_New (Tag_Get (Tag (flds ! j)) validMsgName))"
    by (simp add: bind_field_invalid)
  from loop_fail_list [OF r this]
  show "parseValidForm env (PtrToStruct flds) form =
            Return (Some (errors_New (Tag_Get (Tag (flds ! j)) validMsgName)),
              PtrToStruct (map (\<lambda>fld. snd (bind_field env form fld)) (take j flds) @ drop j flds))"
    by (simp add: parseValidForm_struct)
  show "Error (errors_New (Tag_Get (Tag (flds ! j)) validMsgName)) =
            Tag_Get (Tag (flds ! j)) validMsgName"
    by (simp add: errors_New_def)
next
  fix err
  assume "regexp_Compile env (Tag_Get (Tag (flds ! j)) validTagName) = Inl err"
  with n have "field_valid env form (flds ! j) = Some err"
    by (simp add: field_valid_bad_pattern)
  then have "fst (bind_field env form (flds ! j)) = Some err"
    by (simp add: bind_field_invalid)
  from loop_fail_list [OF r this]
  show "parseValidForm env (PtrToStruct flds) form =
            Return (Some err,
              PtrToStruct (map (\<lambda>fld. snd (bind_field env form fld)) (take j flds) @ drop j flds))"
    by (simp add: parseValidForm_struct)
qed

theorem validation_error_of_reached_field_witness:
  "reaches sample_env (sample_form(''name'' \<mapsto> [''4x2''])) sample_struct 0 \<and>
   \<not> MatchString sample_env ''^[0-9]+$'' ''4x2'' \<and>
   parseValidForm sample_env (PtrToStruct sample_struct) (sample_form(''name'' \<mapsto> [''4x2''])) =
     Return (Some (errorString ''name must be digits''), PtrToStruct sample_struct) \<and>
   Error (errorString ''name must be digits'') = ''name must be digits'' \<and>
   reaches sample_env sample_form
     [sample_field ''name'' ''('' ''bad name'' True reflect_String (VString [])] 0 \<and>
   parseValidForm sample_env
       (PtrToStruct [sample_field ''name'' ''('' ''bad name'' True reflect_String (VString [])])
       sample_form =
     Return (Some (syntax_Error ''missing closing )'' ''(''),
       PtrToStruct [sample_field ''name'' ''('' ''bad name'' True reflect_String (VString [])])"
proof -
  let ?form = "sample_form(''name'' \<mapsto> [''4x2''])"
  let ?f = "sample_field ''name'' ''('' ''bad name'' True reflect_String (VString [])"
  have r: "reaches sample_env ?form sample_struct 0"
    by (simp add: reaches_def sample_struct_def)
  have t: "Tag_Get (Tag (sample_struct ! 0)) validTagName = ''^[0-9]+$''"
          "Tag_Get (Tag (sample_struct ! 0)) validMsgName = ''name must be digits''"
          "form_value ?form (sample_struct ! 0) = ''4x2''"
    by (simp_all add: sample_defs field_defs)
  have n: "Tag_Get (Tag (sample_struct ! 0)) validTagName \<noteq> []"
    using t by simp
  have c: "regexp_Compile sample_env ''^[0-9]+$'' = Inr ''^[0-9]+$''"
    by (simp add: sample_defs)
  have m: "\<not> MatchString sample_env ''^[0-9]+$'' ''4x2''"
    by (simp add: sample_defs is_digit_def)
  from validation_error_of_reached_field [OF r n, THEN conjunct1, rule_format, of "''^[0-9]+$''"]
    t c m
  have p1: "parseValidForm sample_env (PtrToStruct sample_struct) ?form =
     Return (Some (errorString ''name must be digits''), PtrToStruct sample_struct) \<and>
     Error (errorString ''name must be digits'') = ''name must be digits''"
    by (simp add: errors_New_def)
  have r2: "reaches sample_env sample_form [?f] 0"
    by (simp add: reaches_def)
  have t2: "Tag_Get (Tag ([?f] ! 0)) validTagName = ''(''"
    by (simp add: sample_defs field_defs)
  have n2: "Tag_Get (Tag ([?f] ! 0)) validTagName \<noteq> []"
    using t2 by simp
  have c2: "regexp_Compile sample_env ''('' = Inl (syntax_Error ''missing closing )'' ''('')"
    by (simp add: sample_defs)
  from validation_error_of_reached_field [OF r2 n2, THEN conjunct2, rule_format,
      of "syntax_Error ''missing closing )'' ''(''"] t2 c2
  have p2: "parseValidForm sample_env (PtrToStruct [?f]) sample_form =
     Return (Some (syntax_Error ''missing closing )'' ''(''), PtrToStruct [?f])"
    by simp
  from r m p1 r2 p2 show ?thesis by simp
qed

subsection \<open>Absent form parameters\<close>

lemma form_value_absent:
  "form (Tag_Get (Tag fld) inputTagName) = None \<Longrightarrow> form_value form fld = []"
  by (simp add: form_value_def Values_Get_def)

lemma ParseInt_empty: "ParseInt [] 64 = Inl (NumError ''ParseInt'' [] ErrSyntax)"
  by (simp add: ParseInt_def)

lemma ParseUint_empty: "ParseUint [] 64 = Inl (NumError ''ParseUint'' [] ErrSyntax)"
  by (simp add: ParseUint_def)

lemma ParseBool_empty: "ParseBool [] = Inl (NumError ''ParseBool'' [] ErrSyntax)"
  by (simp add: ParseBool_def)

lemma loop_error_reached:
  assumes "reaches env form flds j" and "bind_field env form (flds ! j) = (Some err, fld)"
  shows "fst (parseValidForm_loop env form 0 flds) = Some err"
  using loop_fail_list [OF assms(1), of err] assms(2) by simp

text \<open>
  Claim C8, as stated: when the form has no parameter of a field's name, a settable
  string field is set to the empty string and a settable bool, integer, unsigned
  integer or float field makes \<open>parseValidForm\<close> return a parse error. It fails on an
  \<open>int\<close> field with the pattern \<open>^[0-9]+$\<close>: the empty string does not match, and the
  error returned is the validation message, not a parse error. It fails on a string
  field behind a field that fails: the call returns before reaching it, and the field
  keeps its contents.
\<close>

theorem absent_parameter_counterexample:
  "Map.empty ''n'' = (None :: string list option) \<and>
   parseValidForm sample_env
       (PtrToStruct [sample_field ''n'' ''^[0-9]+$'' ''digits'' True reflect_Int (VInt 1)])
       Map.empty =
     Return (Some (errorString ''digits''),
       PtrToStruct [sample_field ''n'' ''^[0-9]+$'' ''digits'' True reflect_Int (VInt 1)]) \<and>
   \<not> is_parse_error (errorString ''digits'') \<and>
   [''a'' \<mapsto> [''abc'']] ''t'' = None \<and>
   parseValidForm sample_env
       (PtrToStruct [sample_field ''a'' [] [] True reflect_Int (VInt 0),
                     sample_field ''t'' [] [] True reflect_String (VString ''old'')])
       [''a'' \<mapsto> [''abc'']] =
     Return (Some (NumError ''ParseInt'' ''abc'' ErrSyntax),
       PtrToStruct [sample_field ''a'' [] [] True reflect_Int (VInt 0),
                    sample_field ''t'' [] [] True reflect_String (VString ''old'')])"
proof (intro conjI)
  let ?n = "sample_field ''n'' ''^[0-9]+$'' ''digits'' True reflect_Int (VInt 1)"
  let ?a = "sample_field ''a'' [] [] True reflect_Int (VInt 0)"
  let ?t = "sample_field ''t'' [] [] True reflect_String (VString ''old'')"
  show "Map.empty ''n'' = (None :: string list option)" by simp
  have "bind_field sample_env Map.empty ?n = (Some (errorString ''digits''), ?n)"
    by (simp add: sample_defs field_defs bind_defs)
  then have "parseValidForm_loop sample_env Map.empty 0 [?n] = (Some (errorString ''digits''), [?n])"
    by (simp add: loop_err)
  then show "parseValidForm sample_env (PtrToStruct [?n]) Map.empty =
     Return (Some (errorString ''digits''), PtrToStruct [?n])"
    by (simp add: parseValidForm_struct)
  show "\<not> is_parse_error (errorString ''digits'')" by simp
  show "[''a'' \<mapsto> [''abc'']] ''t'' = None" by simp
  have "bind_field sample_env [''a'' \<mapsto> [''abc'']] ?a =
      (Some (NumError ''ParseInt'' ''abc'' ErrSyntax), ?a)"
    by (simp add: sample_field_def field_defs bind_defs kind_defs strconv_defs)
  then have "parseValidForm_loop sample_env [''a'' \<mapsto> [''abc'']] 0 [?a, ?t] =
      (Some (NumError ''ParseInt'' ''abc'' ErrSyntax), [?a, ?t])"
    by (simp add: loop_err)
  then show "parseValidForm sample_env (PtrToStruct [?a, ?t]) [''a'' \<mapsto> [''abc'']] =
     Return (Some (NumError ''ParseInt'' ''abc'' ErrSyntax), PtrToStruct [?a, ?t])"
    by (simp add: parseValidForm_struct)
qed

text \<open>
  Claim C8, amended. When the form has no parameter of the field's name, the field is
  bound from the empty string. For a settable field that the loop reaches (every field
  before it passed validation and coercion) and whose validation lets the empty string
  pass (no \<open>valid\<close> tag, or a pattern that the empty string matches): a string field is
  set to the empty string and the call goes on (it returns \<open>nil\<close> if the later fields
  bind without error); a bool, signed integer or unsigned integer field makes
  \<open>parseValidForm\<close> return the syntax error of \<open>ParseBool\<close>, \<open>ParseInt\<close> or \<open>ParseUint\<close>
  on the empty string; a floating point field makes it return the error of
  \<open>ParseFloat\<close> on the empty string (\<open>ParseFloat\<close> is a parameter here; the one of
  package strconv rejects the empty string).
\<close>

theorem absent_parameter_binds_empty_string:
  assumes r: "reaches env form flds j"
    and a: "form (Tag_Get (Tag (flds ! j)) inputTagName) = None"
    and s: "CanSet (flds ! j)"
    and v: "field_valid env form (flds ! j) = None"
  shows "form_value form (flds ! j) = [] \<and>
    (\<exists>res flds'. parseValidForm env (PtrToStruct flds) form = Return (res, PtrToStruct flds') \<and>
       (kind (flds ! j) = reflect_String \<longrightarrow>
          flds' ! j = (flds ! j)\<lparr>val := VString []\<rparr> \<and>
          (list_all (\<lambda>fld. fst (bind_field env form fld) = None) (drop (Suc j) flds) \<longrightarrow>
             res = None)) \<and>
       (kind (flds ! j) = reflect_Bool \<longrightarrow> res = Some (NumError ''ParseBool'' [] ErrSyntax)) \<and>
       (is_int_kind (kind (flds ! j)) \<longrightarrow> res = Some (NumError ''ParseInt'' [] ErrSyntax)) \<and>
       (is_uint_kind (kind (flds ! j)) \<longrightarrow> res = Some (NumError ''ParseUint'' [] ErrSyntax)) \<and>
       (\<forall>err. is_float_kind (kind (flds ! j)) \<and> ParseFloat env [] 64 = Inl err \<longrightarrow>
          res = Some err))"
proof
  show e: "form_value form (flds ! j) = []"
    using a by (rule form_value_absent)
  let ?res = "parseValidForm_loop env form 0 flds"
  from r have j: "j < length flds"
    and pre: "\<forall>k. 0 \<le> k \<and> k < j \<longrightarrow> fst (bind_field env form (flds ! k)) = None"
    by (simp_all add: reaches_iff)
  have b: "bind_field env form (flds ! j) = scan env (flds ! j) []"
    using v e by (simp add: bind_field_eq)
  have str: "snd ?res ! j = (flds ! j)\<lparr>val := VString []\<rparr> \<and>
      (list_all (\<lambda>fld. fst (bind_field env form fld) = None) (drop (Suc j) flds) \<longrightarrow>
         fst ?res = None)"
    if k: "kind (flds ! j) = reflect_String"
  proof
    from k s b have bj: "bind_field env form (flds ! j) = (None, (flds ! j)\<lparr>val := VString []\<rparr>)"
      by (simp add: scan_def SetString_def)
    from loop_reached [OF _ j pre] bj
    show "snd ?res ! j = (flds ! j)\<lparr>val := VString []\<rparr>" by simp
    show "list_all (\<lambda>fld. fst (bind_field env form fld) = None) (drop (Suc j) flds) \<longrightarrow>
         fst ?res = None"
    proof
      assume l: "list_all (\<lambda>fld. fst (bind_field env form fld) = None) (drop (Suc j) flds)"
      have "\<forall>k. 0 \<le> k \<and> k < length flds \<longrightarrow> fst (bind_field env form (flds ! k)) = None"
      proof (intro allI impI)
        fix k assume kl: "0 \<le> k \<and> k < length flds"
        consider "k < j" | "k = j" | "j < k" by linarith
        then show "fst (bind_field env form (flds ! k)) = None"
        proof cases
          case 1
          with pre show ?thesis by simp
        next
          case 2
          with bj show ?thesis by simp
        next
          case 3
          then have d: "k - Suc j < length (drop (Suc j) flds)"
            and n: "drop (Suc j) flds ! (k - Suc j) = flds ! k"
            using kl by simp_all
          from l d have "fst (bind_field env form (drop (Suc j) flds ! (k - Suc j))) = None"
            by (simp only: list_all_length)
          with n show ?thesis by simp
        qed
      qed
      from loop_success [OF this] show "fst ?res = None" by simp
    qed
  qed
  have bool: "fst ?res = Some (NumError ''ParseBool'' [] ErrSyntax)"
    if k: "kind (flds ! j) = reflect_Bool"
  proof -
    from k s b have "bind_field env form (flds ! j) =
        (Some (NumError ''ParseBool'' [] ErrSyntax), flds ! j)"
      by (simp add: scan_def ParseBool_empty)
    with r show ?thesis by (rule loop_error_reached)
  qed
  have int: "fst ?res = Some (NumError ''ParseInt'' [] ErrSyntax)"
    if k: "is_int_kind (kind (flds ! j))"
  proof -
    from k s b kinds_disjoint(1) [OF k] have "bind_field env form (flds ! j) =
        (Some (NumError ''ParseInt'' [] ErrSyntax), flds ! j)"
      by (simp add: scan_def ParseInt_empty)
    with r show ?thesis by (rule loop_error_reached)
  qed
  have uint: "fst ?res = Some (NumError ''ParseUint'' [] ErrSyntax)"
    if k: "is_uint_kind (kind (flds ! j))"
  proof -
    from k s b kinds_disjoint(2) [OF k] have "bind_field env form (flds ! j) =
        (Some (NumError ''ParseUint'' [] ErrSyntax), flds ! j)"
      by (simp add: scan_def ParseUint_empty)
    with r show ?thesis by (rule loop_error_reached)
  qed
  have float: "fst ?res = Some err"
    if k: "is_float_kind (kind (flds ! j)) \<and> ParseFloat env [] 64 = Inl err" for err
  proof -
    from k have kf: "is_float_kind (kind (flds ! j))" by simp
    from k s b kinds_disjoint(3) [OF kf] have "bind_field env form (flds ! j) =
        (Some err, flds ! j)"
      by (simp add: scan_def)
    with r show ?thesis by (rule loop_error_reached)
  qed
  show "\<exists>res flds'. parseValidForm env (PtrToStruct flds) form = Return (res, PtrToStruct flds') \<and>
       (kind (flds ! j) = reflect_String \<longrightarrow>
          flds' ! j = (flds ! j)\<lparr>val := VString []\<rparr> \<and>
          (list_all (\<lambda>fld. fst (bind_field env form fld) = None) (drop (Suc j) flds) \<longrightarrow>
             res = None)) \<and>
       (kind (flds ! j) = reflect_Bool \<longrightarrow> res = Some (NumError ''ParseBool'' [] ErrSyntax)) \<and>
       (is_int_kind (kind (flds ! j)) \<longrightarrow> res = Some (NumError ''ParseInt'' [] ErrSyntax)) \<and>
       (is_uint_kind (kind (flds ! j)) \<longrightarrow> res = Some (NumError ''ParseUint'' [] ErrSyntax)) \<and>
       (\<forall>err. is_float_kind (kind (flds ! j)) \<and> ParseFloat env [] 64 = Inl err \<longrightarrow>
          res = Some err)"
  proof (rule exI [of _ "fst ?res"], rule exI [of _ "snd ?res"], intro conjI allI)
    show "parseValidForm env (PtrToStruct flds) form = Return (fst ?res, PtrToStruct (snd ?res))"
      by (rule parseValidForm_struct)
    show "kind (flds ! j) = reflect_String \<longrightarrow>
          snd ?res ! j = (flds ! j)\<lparr>val := VString []\<rparr> \<and>
          (list_all (\<lambda>fld. fst (bind_field env form fld) = None) (drop (Suc j) flds) \<longrightarrow>
             fst ?res = None)"
      using str by (rule impI)
    show "kind (flds ! j) = reflect_Bool \<longrightarrow> fst ?res = Some (NumError ''ParseBool'' [] ErrSyntax)"
      using bool by (rule impI)
    show "is_int_kind (kind (flds ! j)) \<longrightarrow> fst ?res = Some (NumError ''ParseInt'' [] ErrSyntax)"
      using int by (rule impI)
    show "is_uint_kind (kind (flds ! j)) \<longrightarrow> fst ?res = Some (NumError ''ParseUint'' [] ErrSyntax)"
      using uint by (rule impI)
    show "is_float_kind (kind (flds ! j)) \<and> ParseFloat env [] 64 = Inl err \<longrightarrow> fst ?res = Some err"
      for err using float by (rule impI)
  qed
qed

theorem absent_parameter_binds_empty_string_witness:
  "(\<exists>flds'. parseValidForm sample_env
       (PtrToStruct [sample_field ''title'' [] [] True reflect_String (VString ''old''),
                     sample_field ''flag'' [] [] True reflect_Bool (VBool True)]) Map.empty =
       Return (Some (NumError ''ParseBool'' [] ErrSyntax), PtrToStruct flds') \<and>
     flds' ! 0 = sample_field ''title'' [] [] True reflect_String (VString [])) \<and>
   (\<exists>flds'. parseValidForm sample_env
       (PtrToStruct [sample_field ''n'' [] [] True reflect_Int32 (VInt 1)]) Map.empty =
       Return (Some (NumError ''ParseInt'' [] ErrSyntax), PtrToStruct flds')) \<and>
   (\<exists>flds'. parseValidForm sample_env
       (PtrToStruct [sample_field ''n'' [] [] True reflect_Uint8 (VUint 1)]) Map.empty =
       Return (Some (NumError ''ParseUint'' [] ErrSyntax), PtrToStruct flds')) \<and>
   (\<exists>flds'. parseValidForm sample_env
       (PtrToStruct [sample_field ''n'' [] [] True reflect_Float32 (VFloat 1)]) Map.empty =
       Return (Some (NumError ''ParseFloat'' [] ErrSyntax), PtrToStruct flds'))"
proof (intro conjI)
  let ?t = "sample_field ''title'' [] [] True reflect_String (VString ''old'')"
  let ?b = "sample_field ''flag'' [] [] True reflect_Bool (VBool True)"
  let ?form = "Map.empty :: Values"
  have b0: "bind_field sample_env ?form ?t = (None, ?t\<lparr>val := VString []\<rparr>)"
    by (simp add: sample_defs field_defs bind_defs)
  have r0: "reaches sample_env ?form [?t, ?b] 0" by (simp add: reaches_def)
  have r1: "reaches sample_env ?form [?t, ?b] 1" using b0 by (simp add: reaches_def)
  have a: "?form (Tag_Get (Tag ([?t, ?b] ! 0)) inputTagName) = None"
          "?form (Tag_Get (Tag ([?t, ?b] ! 1)) inputTagName) = None"
    by simp_all
  have s: "CanSet ([?t, ?b] ! 0)" "CanSet ([?t, ?b] ! 1)"
    by (simp_all add: sample_field_def)
  have v: "field_valid sample_env ?form ([?t, ?b] ! 0) = None"
          "field_valid sample_env ?form ([?t, ?b] ! 1) = None"
    by (simp_all add: sample_field_def field_defs)
  from absent_parameter_binds_empty_string [OF r0 a(1) s(1) v(1)]
  obtain res flds' where
    p: "parseValidForm sample_env (PtrToStruct [?t, ?b]) ?form = Return (res, PtrToStruct flds')"
    and k: "kind ([?t, ?b] ! 0) = reflect_String \<longrightarrow>
          flds' ! 0 = ([?t, ?b] ! 0)\<lparr>val := VString []\<rparr> \<and>
          (list_all (\<lambda>fld. fst (bind_field sample_env ?form fld) = None) (drop (Suc 0) [?t, ?b]) \<longrightarrow>
             res = None)"
    by (elim conjE exE)
  from absent_parameter_binds_empty_string [OF r1 a(2) s(2) v(2)]
  obtain res2 flds2 where
    p2: "parseValidForm sample_env (PtrToStruct [?t, ?b]) ?form = Return (res2, PtrToStruct flds2)"
    and k2: "kind ([?t, ?b] ! 1) = reflect_Bool \<longrightarrow> res2 = Some (NumError ''ParseBool'' [] ErrSyntax)"
    by (elim conjE exE)
  from k have f0: "flds' ! 0 = sample_field ''title'' [] [] True reflect_String (VString [])"
    by (simp add: sample_field_def)
  from k2 have "res2 = Some (NumError ''ParseBool'' [] ErrSyntax)"
    by (simp add: sample_field_def)
  with p p2 have "parseValidForm sample_env (PtrToStruct [?t, ?b]) ?form =
      Return (Some (NumError ''ParseBool'' [] ErrSyntax), PtrToStruct flds')"
    by simp
  with f0 show "\<exists>flds'. parseValidForm sample_env (PtrToStruct [?t, ?b]) ?form =
       Return (Some (NumError ''ParseBool'' [] ErrSyntax), PtrToStruct flds') \<and>
     flds' ! 0 = sample_field ''title'' [] [] True reflect_String (VString [])"
    by (intro exI [of _ flds'] conjI)
next
  let ?n = "sample_field ''n'' [] [] True reflect_Int32 (VInt 1)"
  let ?form = "Map.empty :: Values"
  have r: "reaches sample_env ?form [?n] 0" by (simp add: reaches_def)
  have a: "?form (Tag_Get (Tag ([?n] ! 0)) inputTagName) = None" by simp
  have s: "CanSet ([?n] ! 0)" by (simp add: sample_field_def)
  have v: "field_valid sample_env ?form ([?n] ! 0) = None"
    by (simp add: sample_field_def field_defs)
  from absent_parameter_binds_empty_string [OF r a s v]
  obtain res flds' where
    p: "parseValidForm sample_env (PtrToStruct [?n]) ?form = Return (res, PtrToStruct flds')"
    and k: "is_int_kind (kind ([?n] ! 0)) \<longrightarrow> res = Some (NumError ''ParseInt'' [] ErrSyntax)"
    by (elim conjE exE)
  from k have "res = Some (NumError ''ParseInt'' [] ErrSyntax)"
    by (simp add: sample_field_def kind_defs)
  with p show "\<exists>flds'. parseValidForm sample_env (PtrToStruct [?n]) ?form =
       Return (Some (NumError ''ParseInt'' [] ErrSyntax), PtrToStruct flds')"
    by (intro exI [of _ flds']) simp
next
  let ?n = "sample_field ''n'' [] [] True reflect_Uint8 (VUint 1)"
  let ?form = "Map.empty :: Values"
  have r: "reaches sample_env ?form [?n] 0" by (simp add: reaches_def)
  have a: "?form (Tag_Get (Tag ([?n] ! 0)) inputTagName) = None" by simp
  have s: "CanSet ([?n] ! 0)" by (simp add: sample_field_def)
  have v: "field_valid sample_env ?form ([?n] ! 0) = None"
    by (simp add: sample_field_def field_defs)
  from absent_parameter_binds_empty_string [OF r a s v]
  obtain res flds' where
    p: "parseValidForm sample_env (PtrToStruct [?n]) ?form = Return (res, PtrToStruct flds')"
    and k: "is_uint_kind (kind ([?n] ! 0)) \<longrightarrow> res = Some (NumError ''ParseUint'' [] ErrSyntax)"
    by (elim conjE exE)
  from k have "res = Some (NumError ''ParseUint'' [] ErrSyntax)"
    by (simp add: sample_field_def kind_defs)
  with p show "\<exists>flds'. parseValidForm sample_env (PtrToStruct [?n]) ?form =
       Return (Some (NumError ''ParseUint'' [] ErrSyntax), PtrToStruct flds')"
    by (intro exI [of _ flds']) simp
next
  let ?n = "sample_field ''n'' [] [] True reflect_Float32 (VFloat 1)"
  let ?form = "Map.empty :: Values"
  have r: "reaches sample_env ?form [?n] 0" by (simp add: reaches_def)
  have a: "?form (Tag_Get (Tag ([?n] ! 0)) inputTagName) = None" by simp
  have s: "CanSet ([?n] ! 0)" by (simp add: sample_field_def)
  have v: "field_valid sample_env ?form ([?n] ! 0) = None"
    by (simp add: sample_field_def field_defs)
  have f: "ParseFloat sample_env [] 64 = Inl (NumError ''ParseFloat'' [] ErrSyntax)"
    by (simp add: sample_defs strconv_defs)
  from absent_parameter_binds_empty_string [OF r a s v]
  obtain res flds' where
    p: "parseValidForm sample_env (PtrToStruct [?n]) ?form = Return (res, PtrToStruct flds')"
    and k: "\<forall>err. is_float_kind (kind ([?n] ! 0)) \<and> ParseFloat sample_env [] 64 = Inl err \<longrightarrow>
          res = Some err"
    by (elim conjE exE)
  from k [rule_format, of "NumError ''ParseFloat'' [] ErrSyntax"] f
  have "res = Some (NumError ''ParseFloat'' [] ErrSyntax)"
    by (simp add: sample_field_def kind_defs)
  with p show "\<exists>flds'. parseValidForm sample_env (PtrToStruct [?n]) ?form =
       Return (Some (NumError ''ParseFloat'' [] ErrSyntax), PtrToStruct flds')"
    by (intro exI [of _ flds']) simp
qed

subsection \<open>The response methods\<close>

text \<open>
  Whatever an encoder does with the writer, the calls it adds are \<open>Write\<close> calls.
\<close>

lemma Encode_writes:
  "\<exists>ws. snd (Encode host e w) = w @ map Write ws"
proof (induction e arbitrary: w)
  case (Done err)
  have "snd (Encode host (Done err) w) = w @ map Write []" by simp
  then show ?case by blast
next
  case (DoWrite bts k)
  obtain ws where
    "snd (Encode host (k (Write_result host w bts)) (w @ [Write bts])) =
       (w @ [Write bts]) @ map Write ws"
    using DoWrite.IH [OF rangeI] by blast
  then have "snd (Encode host (DoWrite bts k) w) = w @ map Write (bts # ws)"
    by (simp add: rw_Write_def)
  then show ?case by blast
qed

text \<open>
  Claim C4. For every value given to \<open>JSON\<close>, \<open>XML\<close> or \<open>ASN1\<close>, the calls the method
  makes on the response writer are first the addition of the \<open>Content-Type\<close> header
  with the matching type (\<open>application/json\<close>, \<open>application/xml\<close>,
  \<open>application/asn1\<close>) and after it nothing but writes of body bytes. For \<open>ASN1\<close>
  the header is added and nothing is written when \<open>asn1.Marshal\<close> fails, and the
  marshalled bytes are written in one call when it succeeds.
\<close>

theorem content_type_before_body:
  "(\<exists>ws. rw (snd (JSON host c i)) =
          rw c @ Header_Add ''Content-Type'' ''application/json'' # map Write ws) \<and>
   (\<exists>ws. rw (snd (XML host c i)) =
          rw c @ Header_Add ''Content-Type'' ''application/xml'' # map Write ws) \<and>
   rw (snd (ASN1 host c i)) =
     rw c @ Header_Add ''Content-Type'' ''application/asn1'' #
       (case asn1_Marshal host i of Inl err \<Rightarrow> [] | Inr bts \<Rightarrow> [Write bts])"
proof (intro conjI)
  obtain ws where
    "snd (Encode host (json_Encode host i) (rw c @ [Header_Add contentType applicationJSON])) =
       (rw c @ [Header_Add contentType applicationJSON]) @ map Write ws"
    using Encode_writes by blast
  then have "rw (snd (JSON host c i)) =
      rw c @ Header_Add ''Content-Type'' ''application/json'' # map Write ws"
    by (simp add: JSON_def Head_def contentType_def applicationJSON_def split_beta)
  then show "\<exists>ws. rw (snd (JSON host c i)) =
      rw c @ Header_Add ''Content-Type'' ''application/json'' # map Write ws"
    by blast
next
  obtain ws where
    "snd (Encode host (xml_Encode host i) (rw c @ [Header_Add contentType applicationXML])) =
       (rw c @ [Header_Add contentType applicationXML]) @ map Write ws"
    using Encode_writes by blast
  then have "rw (snd (XML host c i)) =
      rw c @ Header_Add ''Content-Type'' ''application/xml'' # map Write ws"
    by (simp add: XML_def Head_def contentType_def applicationXML_def split_beta)
  then show "\<exists>ws. rw (snd (XML host c i)) =
      rw c @ Header_Add ''Content-Type'' ''application/xml'' # map Write ws"
    by blast
next
  show "rw (snd (ASN1 host c i)) =
     rw c @ Header_Add ''Content-Type'' ''application/asn1'' #
       (case asn1_Marshal host i of Inl err \<Rightarrow> [] | Inr bts \<Rightarrow> [Write bts])"
    by (simp add: ASN1_def Head_def rw_Write_def contentType_def applicationASN1_def
        split: sum.splits prod.splits)
qed

subsection \<open>Context.ParseValidForm\<close>

text \<open>
  Claim C6. If parsing the form of the request fails, \<open>ParseValidForm\<close> returns that
  error at once and the input is as it was: no field is validated, parsed or assigned
  (the input is not even inspected, so nothing panics either).
\<close>

theorem form_error_returned:
  "ParseForm host (req c) = (Some err, r) \<Longrightarrow>
   ParseValidForm env host c inp = Return (Some err, c\<lparr>req := r\<rparr>, inp)"
  by (simp add: ParseValidForm_def)

theorem form_error_returned_witness:
  "ParseForm sample_host \<lparr>raw = ''%zz'', Form = Map.empty\<rparr> =
     (Some (host_error ''invalid URL escape''), \<lparr>raw = ''%zz'', Form = Map.empty\<rparr>) \<and>
   ParseValidForm sample_env sample_host
       \<lparr>req = \<lparr>raw = ''%zz'', Form = Map.empty\<rparr>, rw = []\<rparr> (PtrToStruct sample_struct) =
     Return (Some (host_error ''invalid URL escape''),
             \<lparr>req = \<lparr>raw = ''%zz'', Form = Map.empty\<rparr>, rw = []\<rparr>, PtrToStruct sample_struct)"
proof -
  have h: "ParseForm sample_host (req \<lparr>req = \<lparr>raw = ''%zz'', Form = Map.empty\<rparr>, rw = []\<rparr>) =
     (Some (host_error ''invalid URL escape''), \<lparr>raw = ''%zz'', Form = Map.empty\<rparr>)"
    by (simp add: sample_host_def)
  show ?thesis
    using h form_error_returned [OF h, of sample_env "PtrToStruct sample_struct"] by simp
qed

end
